theory Spec2Isabelle
  imports Main
begin

section \<open>cac: the conversion engine of package convert\<close>

text \<open>
  The development embeds \<^verbatim>\<open>convert/file.go\<close> (\<^verbatim>\<open>ConvertFile\<close>),
  \<^verbatim>\<open>convert/utils.go\<close> (\<^verbatim>\<open>copyFile\<close>, \<^verbatim>\<open>generateConvertCommand\<close>,
  \<^verbatim>\<open>runCommand\<close>) and \<^verbatim>\<open>convert/dir.go\<close> (\<^verbatim>\<open>ConvertDir\<close>).
  Paths, extensions, commands and error messages are Go strings, here \<open>string\<close>.
  A Go \<^verbatim>\<open>error\<close> is \<open>string option\<close>: \<open>None\<close> is \<^verbatim>\<open>nil\<close>, \<open>Some m\<close> an error
  whose message is \<open>m\<close>; a wrapped error (\<^verbatim>\<open>%w\<close>) contributes its message.
\<close>

subsection \<open>Options and actions\<close>

record ConvertFileOpts =
  Command :: string
  Path :: string
  TargetExtension :: string
  OutDir :: string
  DeleteOriginal :: bool
  Quiet :: bool

datatype fileActionType =
    fileActionFail
  | fileActionConvert
  | fileActionMove
  | fileActionSkip

record ConvertDirOpts =
  Command :: string
  Dir :: string
  Sources :: "string list"
  Except :: "string list"
  TargetExtension :: string
  OutDir :: string
  DeleteOriginal :: bool
  Quiet :: bool

subsection \<open>What the code does to the outside world\<close>

text \<open>
  Every call that leaves the process is recorded, in program order, as an \<open>event\<close>:
  a line handed to \<^verbatim>\<open>log.Printf\<close>, or a call of the operating system. \<open>Rename\<close>,
  \<open>Remove\<close>, \<open>Create\<close>, \<open>Copy\<close> and \<open>Exec\<close> change the file system (or start the
  external converter); \<open>Stat\<close> and \<open>Open\<close> only read it.
\<close>

datatype event =
    Log string
  | Rename string string
  | Remove string
  | Stat string
  | Open string
  | Create string
  | Copy string string
  | Exec "string list" bool

fun mutates :: "event \<Rightarrow> bool" where
  "mutates (Log m) = False"
| "mutates (Rename src dst) = True"
| "mutates (Remove p) = True"
| "mutates (Stat p) = False"
| "mutates (Open p) = False"
| "mutates (Create p) = True"
| "mutates (Copy dst src) = True"
| "mutates (Exec argv q) = True"

text \<open>
  The answers of the operating system and of the two libraries the code calls
  (\<^verbatim>\<open>text/template\<close>, \<^verbatim>\<open>go-shellwords\<close>) are parameters: a \<open>world\<close> gives, for each
  call, what it returns. \<open>os_Stat\<close> answers an error or whether the file is regular;
  \<open>cmd_Run\<close> takes the argument vector and the quiet flag (which decides whether the
  child's output is passed through).
\<close>

record world =
  os_Rename :: "string \<Rightarrow> string \<Rightarrow> string option"
  os_Remove :: "string \<Rightarrow> string option"
  os_Stat :: "string \<Rightarrow> string + bool"
  os_Open :: "string \<Rightarrow> string option"
  os_Create :: "string \<Rightarrow> string option"
  io_Copy :: "string \<Rightarrow> string \<Rightarrow> string option"
  template_Parse :: "string \<Rightarrow> string option"
  template_Execute :: "string \<Rightarrow> string \<Rightarrow> string \<Rightarrow> string + string"
  shellwords_Parse :: "string \<Rightarrow> string + string list"
  cmd_Run :: "string list \<Rightarrow> bool \<Rightarrow> string option"

text \<open>
  The three functions of \<^verbatim>\<open>path/filepath\<close> that \<^verbatim>\<open>ConvertFile\<close> calls depend on the
  platform's separator; they are parameters too, and every theorem about
  \<^verbatim>\<open>ConvertFile\<close> holds for any choice of them.
\<close>

record pathlib =
  filepath_Ext :: "string \<Rightarrow> string"
  filepath_Base :: "string \<Rightarrow> string"
  filepath_Join :: "string \<Rightarrow> string \<Rightarrow> string"

subsection \<open>The path functions on Unix\<close>

text \<open>
  The Unix behaviour of \<^verbatim>\<open>filepath.Ext\<close>, \<^verbatim>\<open>filepath.Base\<close> and
  \<^verbatim>\<open>filepath.Join\<close> (which cleans its result), after the Go standard library; it is
  the instance at which the concrete examples below are evaluated.
\<close>

definition IsPathSeparator :: "char \<Rightarrow> bool" where
  "IsPathSeparator c = (c = CHR ''/'')"

text \<open>\<^verbatim>\<open>Ext\<close> scans from the end, up to the last separator, for the last dot.\<close>

fun ext_scan :: "string \<Rightarrow> string \<Rightarrow> string" where
  "ext_scan [] seen = []"
| "ext_scan (c # front) seen =
     (if IsPathSeparator c then []
      else if c = CHR ''.'' then c # seen
      else ext_scan front (c # seen))"

definition unix_Ext :: "string \<Rightarrow> string" where
  "unix_Ext path = ext_scan (rev path) []"

definition unix_Base :: "string \<Rightarrow> string" where
  "unix_Base path =
     (if path = [] then ''.''
      else
        let stripped = rev (dropWhile IsPathSeparator (rev path));
            element = rev (takeWhile (\<lambda>c. \<not> IsPathSeparator c) (rev stripped))
        in if element = [] then ''/'' else element)"

fun split_elements :: "string \<Rightarrow> string list" where
  "split_elements [] = [[]]"
| "split_elements (c # cs) =
     (if IsPathSeparator c then [] # split_elements cs
      else (case split_elements cs of
              [] \<Rightarrow> [[c]]
            | e # es \<Rightarrow> (c # e) # es))"

text \<open>
  \<^verbatim>\<open>Clean\<close> keeps the elements written so far, the last one first. An empty element
  and \<^verbatim>\<open>.\<close> are dropped; \<^verbatim>\<open>..\<close> removes the last real element, is kept in front of
  a path that is not rooted, and is dropped at the root.
\<close>

definition clean_element :: "bool \<Rightarrow> string list \<Rightarrow> string \<Rightarrow> string list" where
  "clean_element rooted written e =
     (if e = [] \<or> e = ''.'' then written
      else if e = ''..'' then
        (if written \<noteq> [] \<and> hd written \<noteq> ''..'' then tl written
         else if \<not> rooted then ''..'' # written
         else written)
      else e # written)"

fun join_elements :: "string list \<Rightarrow> string" where
  "join_elements [] = []"
| "join_elements [e] = e"
| "join_elements (e # es) = e @ ''/'' @ join_elements es"

definition unix_Clean :: "string \<Rightarrow> string" where
  "unix_Clean path =
     (if path = [] then ''.''
      else
        let rooted = IsPathSeparator (hd path);
            out = join_elements (rev (foldl (clean_element rooted) [] (split_elements path)))
        in if rooted then CHR ''/'' # out
           else if out = [] then ''.''
           else out)"

definition unix_Join :: "string \<Rightarrow> string \<Rightarrow> string" where
  "unix_Join a b =
     (if a \<noteq> [] then unix_Clean (a @ ''/'' @ b)
      else if b \<noteq> [] then unix_Clean b
      else [])"

definition unix :: pathlib where
  "unix = \<lparr> filepath_Ext = unix_Ext, filepath_Base = unix_Base, filepath_Join = unix_Join \<rparr>"

subsection \<open>Strings and formatting\<close>

text \<open>\<^verbatim>\<open>strings.TrimSuffix\<close>: the string without the suffix, when it ends with it.\<close>

definition strings_HasSuffix :: "string \<Rightarrow> string \<Rightarrow> bool" where
  "strings_HasSuffix s suffix =
     (length suffix \<le> length s \<and> drop (length s - length suffix) s = suffix)"

definition strings_TrimSuffix :: "string \<Rightarrow> string \<Rightarrow> string" where
  "strings_TrimSuffix s suffix =
     (if strings_HasSuffix s suffix then take (length s - length suffix) s else s)"

text \<open>The verb \<^verbatim>\<open>%d\<close> of package \<^verbatim>\<open>fmt\<close>, on a Go \<^verbatim>\<open>int\<close>.\<close>

fun digits :: "nat \<Rightarrow> string" where
  "digits n =
     (if n < 10 then [char_of (48 + n)]
      else digits (n div 10) @ [char_of (48 + n mod 10)])"

declare digits.simps [simp del]

definition fmt_d :: "int \<Rightarrow> string" where
  "fmt_d i = (if i < 0 then CHR ''-'' # digits (nat (- i)) else digits (nat i))"

definition nl :: string where
  "nl = [CHR 0x0A]"

text \<open>A log line that the quiet flag suppresses.\<close>

definition logf :: "bool \<Rightarrow> string \<Rightarrow> event list" where
  "logf quiet msg = (if quiet then [] else [Log msg])"

subsection \<open>convert/utils.go\<close>

text \<open>
  \<^verbatim>\<open>copyFile\<close>: stat the source, refuse what is not a regular file, open it, create
  the destination, copy. The result is the error and the calls made.
\<close>

definition copyFile :: "world \<Rightarrow> string \<Rightarrow> string \<Rightarrow> string option \<times> event list" where
  "copyFile w src dst =
     (case os_Stat w src of
        Inl err \<Rightarrow> (Some err, [Stat src])
      | Inr regular \<Rightarrow>
          if \<not> regular then (Some (src @ '' is not a regular file''), [Stat src])
          else
            (case os_Open w src of
               Some err \<Rightarrow> (Some err, [Stat src, Open src])
             | None \<Rightarrow>
                 (case os_Create w dst of
                    Some err \<Rightarrow> (Some err, [Stat src, Open src, Create dst])
                  | None \<Rightarrow>
                      (io_Copy w dst src, [Stat src, Open src, Create dst, Copy dst src]))))"

text \<open>\<^verbatim>\<open>generateConvertCommand\<close>: parse the template, then execute it on both paths.\<close>

definition generateConvertCommand ::
  "world \<Rightarrow> string \<Rightarrow> string \<Rightarrow> string \<Rightarrow> string + string" where
  "generateConvertCommand w tmpl inputFile outputFile =
     (case template_Parse w tmpl of
        Some err \<Rightarrow> Inl err
      | None \<Rightarrow> template_Execute w tmpl inputFile outputFile)"

definition splitCommand :: "world \<Rightarrow> string \<Rightarrow> string + string list" where
  "splitCommand w command = shellwords_Parse w command"

text \<open>\<^verbatim>\<open>runCommand\<close>: split the command; an empty argument vector is an error.\<close>

definition runCommand :: "world \<Rightarrow> string \<Rightarrow> bool \<Rightarrow> string option \<times> event list" where
  "runCommand w command quiet =
     (case splitCommand w command of
        Inl err \<Rightarrow> (Some err, [])
      | Inr commandParts \<Rightarrow>
          if length commandParts = 0 then (Some (''invalid command: '' @ command), [])
          else (cmd_Run w commandParts quiet, [Exec commandParts quiet]))"

subsection \<open>convert/file.go: ConvertFile\<close>

text \<open>
  \<^verbatim>\<open>ConvertFile\<close> returns the error, the action and (here) the events, in order.
  A file that already has the target extension is moved or copied, unless it is its
  own output path; any other file is converted by the external command.
\<close>

definition outputPath_of :: "pathlib \<Rightarrow> ConvertFileOpts \<Rightarrow> string" where
  "outputPath_of P opts =
     (let ext = filepath_Ext P (Path opts);
          fileName = strings_TrimSuffix (filepath_Base P (Path opts)) ext
                       @ ConvertFileOpts.TargetExtension opts
      in filepath_Join P (ConvertFileOpts.OutDir opts) fileName)"

definition ConvertFile ::
  "pathlib \<Rightarrow> world \<Rightarrow> ConvertFileOpts \<Rightarrow> string option \<times> fileActionType \<times> event list" where
  "ConvertFile P w opts =
     (let ext = filepath_Ext P (Path opts);
          outputPath = outputPath_of P opts;
          quiet = ConvertFileOpts.Quiet opts;
          arrow = Path opts @ '' -> '' @ outputPath @ nl
      in
      if ext = ConvertFileOpts.TargetExtension opts then
        (if Path opts = outputPath then
           (None, fileActionSkip,
            logf quiet (''already in output directory - skipping: '' @ Path opts @ nl))
         else if ConvertFileOpts.DeleteOriginal opts then
           (case os_Rename w (Path opts) outputPath of
              Some err \<Rightarrow>
                (Some (''failed to move file '' @ Path opts @ '': '' @ err), fileActionFail,
                 logf quiet (''moving: '' @ arrow) @ [Rename (Path opts) outputPath])
            | None \<Rightarrow>
                (None, fileActionMove,
                 logf quiet (''moving: '' @ arrow) @ [Rename (Path opts) outputPath]
                   @ logf quiet (''moved/copied: '' @ arrow)))
         else
           (case copyFile w (Path opts) outputPath of
              (Some err, calls) \<Rightarrow>
                (Some (''failed to copy file '' @ Path opts @ '': '' @ err), fileActionFail,
                 logf quiet (''copying: '' @ arrow) @ calls)
            | (None, calls) \<Rightarrow>
                (None, fileActionMove,
                 logf quiet (''copying: '' @ arrow) @ calls
                   @ logf quiet (''moved/copied: '' @ arrow))))
      else
        (case generateConvertCommand w (ConvertFileOpts.Command opts) (Path opts) outputPath of
           Inl err \<Rightarrow>
             (Some (''failed to generate command for '' @ Path opts @ '': '' @ err),
              fileActionFail, logf quiet (''converting: '' @ arrow))
         | Inr command \<Rightarrow>
             (case runCommand w command quiet of
                (Some err, calls) \<Rightarrow>
                  (Some (''failed to convert '' @ Path opts @ '': '' @ err), fileActionFail,
                   logf quiet (''converting: '' @ arrow) @ calls)
              | (None, calls) \<Rightarrow>
                  if ConvertFileOpts.DeleteOriginal opts then
                    (case os_Remove w (Path opts) of
                       Some err \<Rightarrow>
                         (Some (''failed to delete original file '' @ Path opts @ '': '' @ err),
                          fileActionFail,
                          logf quiet (''converting: '' @ arrow) @ calls
                            @ logf quiet (''deleting original file: '' @ Path opts @ nl)
                            @ [Remove (Path opts)])
                     | None \<Rightarrow>
                         (None, fileActionConvert,
                          logf quiet (''converting: '' @ arrow) @ calls
                            @ logf quiet (''deleting original file: '' @ Path opts @ nl)
                            @ [Remove (Path opts)]
                            @ logf quiet (''converted: '' @ arrow)))
                  else
                    (None, fileActionConvert,
                     logf quiet (''converting: '' @ arrow) @ calls
                       @ logf quiet (''converted: '' @ arrow)))))"

subsection \<open>convert/dir.go: the shared state of a run\<close>

text \<open>
  \<^verbatim>\<open>filepath.WalkDir\<close> presents the entries of the tree one by one to the callback,
  each with a path and either an error or a directory entry. The callback only looks
  at the error and at \<^verbatim>\<open>d.IsDir()\<close>, so an entry is one of three things.
\<close>

datatype walk_entry =
    WalkErr string string
  | WalkDirectory string
  | WalkFile string

fun files_of :: "walk_entry list \<Rightarrow> string list" where
  "files_of [] = []"
| "files_of (WalkFile path # es) = path # files_of es"
| "files_of (e # es) = files_of es"

text \<open>
  The goroutine started for a file runs four statements in order: the send on
  \<^verbatim>\<open>sem\<close>, the body, the deferred receive from \<^verbatim>\<open>sem\<close>, the deferred
  \<^verbatim>\<open>wg.Done()\<close>. Its status says which of them it has passed; \<open>outcome\<close> is the
  action \<^verbatim>\<open>ConvertFile\<close> returned, when the body called it.
\<close>

datatype gstatus = Spawned | Acquired | Ran | Released | Finished

record goroutine =
  inputPath :: string
  status :: gstatus
  outcome :: "fileActionType option"

datatype phase = Walking | Waiting

text \<open>
  The variables of \<^verbatim>\<open>ConvertDir\<close> that the walker and the goroutines share:
  \<open>sem\<close> is the number of values in the channel, \<open>wg\<close> the counter of the wait
  group, the four counters are Go \<^verbatim>\<open>int\<close>s (64 bits; each counts files of one walk,
  far from the wrap-around, so they are \<open>int\<close> here). \<open>pending\<close> holds the entries
  the walk has still to present, \<open>visited\<close> those it has presented, \<open>walk_error\<close>
  what \<^verbatim>\<open>WalkDir\<close> returns, and \<open>trace\<close> the events so far.
\<close>

record run =
  pending :: "walk_entry list"
  visited :: "walk_entry list"
  phase :: phase
  walk_error :: "string option"
  goroutines :: "goroutine list"
  wg :: int
  sem :: nat
  collectedErrors :: "string list"
  processedFiles :: int
  skippedFiles :: int
  movedFiles :: int
  failedFiles :: int
  trace :: "event list"

definition start :: "nat \<Rightarrow> ConvertDirOpts \<Rightarrow> walk_entry list \<Rightarrow> run" where
  "start maxGoroutines opts entries =
     \<lparr> pending = entries, visited = [], phase = Walking, walk_error = None,
       goroutines = [], wg = 0, sem = 0, collectedErrors = [],
       processedFiles = 0, skippedFiles = 0, movedFiles = 0, failedFiles = 0,
       trace = logf (Quiet opts)
                 (''using '' @ fmt_d (int maxGoroutines)
                    @ '' worker threads for parallel processing'' @ nl) \<rparr>"

definition addError :: "string \<Rightarrow> run \<Rightarrow> run" where
  "addError err s = s\<lparr>collectedErrors := collectedErrors s @ [err]\<rparr>"

subsection \<open>The callback of the walk\<close>

text \<open>
  An entry with an error is recorded and the walk goes on (the callback returns
  \<^verbatim>\<open>nil\<close>); a directory is passed over; for any other entry the wait group is
  incremented and a goroutine is started.
\<close>

definition walkFn :: "walk_entry \<Rightarrow> run \<Rightarrow> run \<times> string option" where
  "walkFn e s =
     (case e of
        WalkErr path err \<Rightarrow>
          (addError (''error accessing '' @ path @ '': '' @ err) s, None)
      | WalkDirectory path \<Rightarrow> (s, None)
      | WalkFile path \<Rightarrow>
          (s\<lparr>wg := wg s + 1,
             goroutines := goroutines s
                @ [\<lparr>inputPath = path, status = Spawned, outcome = None\<rparr>]\<rparr>,
           None))"

subsection \<open>The body of a goroutine\<close>

text \<open>
  The decision to process, lines 61 to 66: \<^verbatim>\<open>slices.Contains\<close> is asked for the
  target extension of the options, in \<^verbatim>\<open>Sources\<close> and then in \<^verbatim>\<open>Except\<close>.
\<close>

definition shouldProcess :: "ConvertDirOpts \<Rightarrow> string \<Rightarrow> bool" where
  "shouldProcess opts path =
     (if TargetExtension opts \<in> set (Sources opts) then True
      else if TargetExtension opts \<notin> set (Except opts) then True
      else False)"

definition fileOpts :: "ConvertDirOpts \<Rightarrow> string \<Rightarrow> ConvertFileOpts" where
  "fileOpts opts path =
     \<lparr> ConvertFileOpts.Command = Command opts,
       Path = path,
       ConvertFileOpts.TargetExtension = TargetExtension opts,
       ConvertFileOpts.OutDir = OutDir opts,
       ConvertFileOpts.DeleteOriginal = DeleteOriginal opts,
       ConvertFileOpts.Quiet = Quiet opts \<rparr>"

definition countAction :: "fileActionType \<Rightarrow> run \<Rightarrow> run" where
  "countAction fileAction s =
     (case fileAction of
        fileActionFail \<Rightarrow> s\<lparr>failedFiles := failedFiles s + 1\<rparr>
      | fileActionConvert \<Rightarrow> s\<lparr>processedFiles := processedFiles s + 1\<rparr>
      | fileActionMove \<Rightarrow> s\<lparr>movedFiles := movedFiles s + 1\<rparr>
      | fileActionSkip \<Rightarrow> s\<lparr>skippedFiles := skippedFiles s + 1\<rparr>)"

definition goroutineBody ::
  "pathlib \<Rightarrow> world \<Rightarrow> ConvertDirOpts \<Rightarrow> string \<Rightarrow> run \<Rightarrow> run \<times> fileActionType option" where
  "goroutineBody P w opts path s =
     (if shouldProcess opts path then
        (case ConvertFile P w (fileOpts opts path) of
           (err, fileAction, calls) \<Rightarrow>
             let s1 = s\<lparr>trace := trace s @ calls\<rparr>;
                 s2 = (case err of None \<Rightarrow> s1 | Some e \<Rightarrow> addError e s1)
             in (countAction fileAction s2, Some fileAction))
      else (s, None))"

subsection \<open>Interleavings\<close>

text \<open>
  The walker and the goroutines run concurrently. A run is a sequence of atomic
  actions, each the next statement of the walker or of one goroutine (named by its
  position in \<open>goroutines\<close>); the answers of the world to a body are part of the
  action. A send on the full channel, a receive from the empty one and a statement
  whose turn has not come are not enabled: \<open>step\<close> gives \<open>None\<close>. So does
  \<^verbatim>\<open>wg.Done()\<close> on a counter that is zero, where Go panics. The body is one action:
  \<^verbatim>\<open>ConvertFile\<close> shares nothing with the other goroutines, and the two updates
  after it are made under the mutexes.
\<close>

datatype action =
    Walk
  | WalkDone
  | Acquire nat
  | Body nat world
  | Release nat
  | Done nat

definition setStatus :: "nat \<Rightarrow> gstatus \<Rightarrow> run \<Rightarrow> run" where
  "setStatus i st s =
     s\<lparr>goroutines := (goroutines s)[i := (goroutines s ! i)\<lparr>status := st\<rparr>]\<rparr>"

definition at_status :: "run \<Rightarrow> nat \<Rightarrow> gstatus \<Rightarrow> bool" where
  "at_status s i st = (i < length (goroutines s) \<and> status (goroutines s ! i) = st)"

fun step ::
  "nat \<Rightarrow> pathlib \<Rightarrow> ConvertDirOpts \<Rightarrow> action \<Rightarrow> run \<Rightarrow> run option" where
  "step maxGoroutines P opts Walk s =
     (if phase s = Walking then
        (case pending s of
           [] \<Rightarrow> None
         | e # rest \<Rightarrow>
             (case walkFn e s of
                (s', None) \<Rightarrow>
                  Some (s'\<lparr>pending := rest, visited := visited s' @ [e]\<rparr>)
              | (s', Some err) \<Rightarrow>
                  Some (s'\<lparr>pending := [], visited := visited s' @ [e],
                           walk_error := Some err\<rparr>)))
      else None)"
| "step maxGoroutines P opts WalkDone s =
     (if phase s = Walking \<and> pending s = [] then
        let s1 = (case walk_error s of
                    None \<Rightarrow> s
                  | Some err \<Rightarrow> addError (''error walking directory: '' @ err) s)
        in Some (s1\<lparr>phase := Waiting,
                    trace := trace s1
                      @ logf (Quiet opts)
                          (nl @ ''waiting for all conversions to complete...'' @ nl)\<rparr>)
      else None)"
| "step maxGoroutines P opts (Acquire i) s =
     (if at_status s i Spawned \<and> sem s < maxGoroutines
      then Some (setStatus i Acquired (s\<lparr>sem := sem s + 1\<rparr>))
      else None)"
| "step maxGoroutines P opts (Body i w) s =
     (if at_status s i Acquired then
        (case goroutineBody P w opts (inputPath (goroutines s ! i)) s of
           (s', fileAction) \<Rightarrow>
             Some (s'\<lparr>goroutines :=
                        (goroutines s')[i := (goroutines s' ! i)
                                          \<lparr>status := Ran, outcome := fileAction\<rparr>]\<rparr>))
      else None)"
| "step maxGoroutines P opts (Release i) s =
     (if at_status s i Ran \<and> 0 < sem s
      then Some (setStatus i Released (s\<lparr>sem := sem s - 1\<rparr>))
      else None)"
| "step maxGoroutines P opts (Done i) s =
     (if at_status s i Released \<and> 0 < wg s
      then Some (setStatus i Finished (s\<lparr>wg := wg s - 1\<rparr>))
      else None)"

fun exec ::
  "nat \<Rightarrow> pathlib \<Rightarrow> ConvertDirOpts \<Rightarrow> action list \<Rightarrow> run \<Rightarrow> run option" where
  "exec maxGoroutines P opts [] s = Some s"
| "exec maxGoroutines P opts (a # as) s =
     (case step maxGoroutines P opts a s of
        None \<Rightarrow> None
      | Some s' \<Rightarrow> exec maxGoroutines P opts as s')"

subsection \<open>After the wait: the report and the result\<close>

text \<open>
  With at least one collected error the errors are logged and an error is returned,
  before the summary; otherwise the summary is logged unless the run is quiet.
\<close>

definition report :: "ConvertDirOpts \<Rightarrow> run \<Rightarrow> string option \<times> event list" where
  "report opts s =
     (if length (collectedErrors s) > 0 then
        (Some (nl @ ''completed with '' @ fmt_d (int (length (collectedErrors s)))
                 @ '' errors'' @ nl),
         Log (nl @ ''=== errors encountered ==='' @ nl)
           # map (\<lambda>(i, err). Log (''Error '' @ fmt_d (int i + 1) @ '': '' @ err @ nl))
               (enumerate 0 (collectedErrors s)))
      else
        (None,
         if Quiet opts then []
         else
           [Log (nl @ ''=== conversion summary ==='' @ nl),
            Log (''files converted: '' @ fmt_d (processedFiles s - failedFiles s) @ nl),
            Log (''files moved/copied: '' @ fmt_d (movedFiles s) @ nl),
            Log (''files skipped: '' @ fmt_d (skippedFiles s) @ nl),
            Log (''files failed: '' @ fmt_d (failedFiles s) @ nl),
            Log (''total files processed: ''
                   @ fmt_d (processedFiles s + movedFiles s + skippedFiles s) @ nl)]))"

text \<open>
  \<^verbatim>\<open>ConvertDir\<close> under a schedule: the run has a result when the schedule is one
  the program can follow, the walk has been left and \<^verbatim>\<open>wg.Wait()\<close> returns, that is
  when the counter is zero. The result is the returned error and the final state.
\<close>

definition ConvertDir ::
  "nat \<Rightarrow> pathlib \<Rightarrow> ConvertDirOpts \<Rightarrow> walk_entry list \<Rightarrow> action list
     \<Rightarrow> (string option \<times> run) option" where
  "ConvertDir maxGoroutines P opts entries sched =
     (case exec maxGoroutines P opts sched (start maxGoroutines opts entries) of
        None \<Rightarrow> None
      | Some s \<Rightarrow>
          if phase s = Waiting \<and> wg s = 0 then
            (case report opts s of
               (res, lines) \<Rightarrow> Some (res, s\<lparr>trace := trace s @ lines\<rparr>))
          else None)"

text \<open>The number of goroutines that hold a slot of the pool.\<close>

definition holds_slot :: "goroutine \<Rightarrow> bool" where
  "holds_slot g = (status g = Acquired \<or> status g = Ran)"

definition in_flight :: "run \<Rightarrow> nat" where
  "in_flight s = length (filter holds_slot (goroutines s))"

text \<open>
  One schedule that every walk admits when the pool has a slot: each goroutine runs
  to its end as soon as it is started.
\<close>

fun sequential :: "(string \<Rightarrow> world) \<Rightarrow> nat \<Rightarrow> walk_entry list \<Rightarrow> action list" where
  "sequential W k [] = [WalkDone]"
| "sequential W k (WalkFile path # es) =
     [Walk, Acquire k, Body k (W path), Release k, Done k] @ sequential W (Suc k) es"
| "sequential W k (e # es) = Walk # sequential W k es"

subsection \<open>A world and options for the examples\<close>

text \<open>
  A world in which every call succeeds: the template gives the default
  \<^verbatim>\<open>ffmpeg\<close> command line and the command is split at its blanks.
\<close>

fun words :: "string \<Rightarrow> string list" where
  "words [] = [[]]"
| "words (c # cs) =
     (if c = CHR '' '' then [] # words cs
      else (case words cs of [] \<Rightarrow> [[c]] | x # xs \<Rightarrow> (c # x) # xs))"

definition fine :: world where
  "fine =
     \<lparr> os_Rename = (\<lambda>src dst. None),
       os_Remove = (\<lambda>p. None),
       os_Stat = (\<lambda>p. Inr True),
       os_Open = (\<lambda>p. None),
       os_Create = (\<lambda>p. None),
       io_Copy = (\<lambda>dst src. None),
       template_Parse = (\<lambda>t. None),
       template_Execute = (\<lambda>t i out. Inr (''ffmpeg -y -i '' @ i @ '' '' @ out)),
       shellwords_Parse = (\<lambda>c. Inr (filter (\<lambda>x. x \<noteq> []) (words c))),
       cmd_Run = (\<lambda>argv q. None) \<rparr>"

definition to_mp3 :: "string list \<Rightarrow> string list \<Rightarrow> ConvertDirOpts" where
  "to_mp3 srcs exc =
     \<lparr> Command = ''ffmpeg -y -i \"{{ .InputFile }}\" \"{{ .OutputFile }}\"'',
       Dir = ''music'', Sources = srcs, Except = exc, TargetExtension = ''.mp3'',
       OutDir = ''out'', DeleteOriginal = False, Quiet = True \<rparr>"

text \<open>The same world, except that the external command exits with an error.\<close>

definition failing :: world where
  "failing = fine\<lparr>cmd_Run := (\<lambda>argv q. Some ''exit status 1'')\<rparr>"

subsection \<open>Kinds of calls\<close>

text \<open>
  The calls by which a file is moved or copied, and the calls by which one is
  converted (running the external command, deleting the original afterwards).
\<close>

fun relocation_call :: "event \<Rightarrow> bool" where
  "relocation_call (Rename src dst) = True"
| "relocation_call (Stat p) = True"
| "relocation_call (Open p) = True"
| "relocation_call (Create p) = True"
| "relocation_call (Copy dst src) = True"
| "relocation_call e = False"

fun conversion_call :: "event \<Rightarrow> bool" where
  "conversion_call (Exec argv q) = True"
| "conversion_call (Remove p) = True"
| "conversion_call e = False"

subsection \<open>Invariants of a run\<close>

text \<open>
  Predicates on goroutines and on the shared state, in terms of which the properties
  of all interleavings are proved. \<open>walk_errors_of\<close> lists the messages that the
  callback records for the entries with an error.
\<close>

definition body_done :: "goroutine \<Rightarrow> bool" where
  "body_done g = (status g = Ran \<or> status g = Released \<or> status g = Finished)"

definition unfinished :: "goroutine \<Rightarrow> bool" where
  "unfinished g = (status g \<noteq> Finished)"

definition has_outcome :: "fileActionType \<Rightarrow> goroutine \<Rightarrow> bool" where
  "has_outcome a g = (outcome g = Some a)"

fun walk_errors_of :: "walk_entry list \<Rightarrow> string list" where
  "walk_errors_of [] = []"
| "walk_errors_of (WalkErr path err # es) =
     (''error accessing '' @ path @ '': '' @ err) # walk_errors_of es"
| "walk_errors_of (e # es) = walk_errors_of es"

text \<open>The channel holds one value for each goroutine between its send and its receive.\<close>

definition pool_ok :: "nat \<Rightarrow> run \<Rightarrow> bool" where
  "pool_ok N s = (sem s = in_flight s \<and> sem s \<le> N)"

text \<open>The wait group counts the goroutines that have not called \<^verbatim>\<open>wg.Done()\<close>.\<close>

definition wg_ok :: "run \<Rightarrow> bool" where
  "wg_ok s = (wg s = int (length (filter unfinished (goroutines s))))"

text \<open>
  The walk loses no entry and never stops early, and the goroutines are those of the
  files presented so far, in order.
\<close>

definition walk_ok :: "walk_entry list \<Rightarrow> run \<Rightarrow> bool" where
  "walk_ok entries s =
     (visited s @ pending s = entries \<and> walk_error s = None \<and>
      (phase s = Waiting \<longrightarrow> pending s = []) \<and>
      map inputPath (goroutines s) = files_of (visited s))"

text \<open>A goroutine has an outcome exactly when its body has run and decided to process.\<close>

definition outcomes_ok :: "ConvertDirOpts \<Rightarrow> run \<Rightarrow> bool" where
  "outcomes_ok opts s =
     (\<forall>j<length (goroutines s).
        (outcome (goroutines s ! j) \<noteq> None)
          = (body_done (goroutines s ! j) \<and> shouldProcess opts (inputPath (goroutines s ! j))))"

text \<open>
  Each counter is the number of goroutines with that outcome, and the collected errors
  are those of the walk and one for each failed file.
\<close>

definition tally_ok :: "run \<Rightarrow> bool" where
  "tally_ok s =
     (failedFiles s = int (length (filter (has_outcome fileActionFail) (goroutines s))) \<and>
      processedFiles s = int (length (filter (has_outcome fileActionConvert) (goroutines s))) \<and>
      movedFiles s = int (length (filter (has_outcome fileActionMove) (goroutines s))) \<and>
      skippedFiles s = int (length (filter (has_outcome fileActionSkip) (goroutines s))) \<and>
      walk_error s = None \<and>
      set (walk_errors_of (visited s)) \<subseteq> set (collectedErrors s) \<and>
      length (collectedErrors s)
        = length (walk_errors_of (visited s))
            + length (filter (has_outcome fileActionFail) (goroutines s)))"

text \<open>
  Every outcome is the action that \<^verbatim>\<open>ConvertFile\<close> returned for that file under some
  answers of the world, the calls it made are in the trace, and its error, if any, is
  among the collected errors.
\<close>

definition calls_made :: "pathlib \<Rightarrow> ConvertDirOpts \<Rightarrow> run \<Rightarrow> bool" where
  "calls_made P opts s =
     (\<forall>j<length (goroutines s). \<forall>a. outcome (goroutines s ! j) = Some a \<longrightarrow>
        (\<exists>w err calls.
           ConvertFile P w (fileOpts opts (inputPath (goroutines s ! j))) = (err, a, calls) \<and>
           set calls \<subseteq> set (trace s) \<and>
           (\<forall>e. err = Some e \<longrightarrow> e \<in> set (collectedErrors s))))"

definition run_ok :: "nat \<Rightarrow> ConvertDirOpts \<Rightarrow> walk_entry list \<Rightarrow> run \<Rightarrow> bool" where
  "run_ok N opts entries s =
     (pool_ok N s \<and> wg_ok s \<and> walk_ok entries s \<and> outcomes_ok opts s \<and> tally_ok s)"

section \<open>Properties of ConvertFile\<close>

lemma logf_filter [simp]:
  "filter relocation_call (logf q m) = []"
  "filter conversion_call (logf q m) = []"
  "filter mutates (logf q m) = []"
  by (simp_all add: logf_def)

lemma copyFile_calls:
  "copyFile w src dst = (err, calls) \<Longrightarrow>
     filter conversion_call calls = [] \<and> filter relocation_call calls \<noteq> []"
  by (auto simp: copyFile_def split: sum.splits if_splits option.splits)

lemma runCommand_calls:
  "runCommand w c q = (err, calls) \<Longrightarrow>
     filter relocation_call calls = [] \<and> (err = None \<longrightarrow> filter conversion_call calls \<noteq> [])"
  by (auto simp: runCommand_def splitCommand_def split: sum.splits if_splits option.splits)

lemma ConvertFile_same_extension:
  assumes "ConvertFile P w opts = (err, fileAction, calls)"
    and "filepath_Ext P (Path opts) = ConvertFileOpts.TargetExtension opts"
  shows "fileAction \<noteq> fileActionConvert \<and> filter conversion_call calls = [] \<and>
      (Path opts \<noteq> outputPath_of P opts \<longrightarrow>
         fileAction \<noteq> fileActionSkip \<and> filter relocation_call calls \<noteq> [])"
  using assms
  by (auto simp: ConvertFile_def Let_def split: if_splits option.splits prod.splits
        dest!: copyFile_calls)

lemma ConvertFile_other_extension:
  assumes "ConvertFile P w opts = (err, fileAction, calls)"
    and "filepath_Ext P (Path opts) \<noteq> ConvertFileOpts.TargetExtension opts"
  shows "fileAction \<noteq> fileActionMove \<and> fileAction \<noteq> fileActionSkip \<and>
      filter relocation_call calls = [] \<and>
      (fileAction = fileActionConvert \<longrightarrow> filter conversion_call calls \<noteq> [])"
  using assms
  by (auto simp: ConvertFile_def Let_def split: if_splits option.splits prod.splits sum.splits
        dest!: runCommand_calls)

text \<open>
  Which calls are made: a move is one \<^verbatim>\<open>os.Rename\<close>, a copy starts with the stat of
  the source and ends, when it succeeds, with the copy into the output path, and a
  conversion runs the argument vector that the command was split into.
\<close>

lemma copyFile_result:
  assumes "copyFile w src dst = (err, calls)"
  shows "Stat src \<in> set calls \<and>
         (\<forall>e\<in>set calls. mutates e \<longrightarrow> e = Create dst \<or> e = Copy dst src) \<and>
         (err = None \<longrightarrow> Copy dst src \<in> set calls)"
  using assms
  by (auto simp: copyFile_def split: sum.splits if_splits option.splits)

lemma runCommand_result:
  assumes "runCommand w c q = (err, calls)"
  shows "(\<forall>argv. splitCommand w c = Inr argv \<and> argv \<noteq> [] \<longrightarrow> calls = [Exec argv q]) \<and>
         (err = None \<longrightarrow>
            (\<exists>argv. splitCommand w c = Inr argv \<and> argv \<noteq> [] \<and> cmd_Run w argv q = None))"
  using assms
  by (auto simp: runCommand_def split: sum.splits if_splits option.splits)

lemma ConvertFile_relocates:
  assumes "ConvertFile P w opts = (err, fileAction, calls)"
    and "filepath_Ext P (Path opts) = ConvertFileOpts.TargetExtension opts"
    and "Path opts \<noteq> outputPath_of P opts"
  shows "(ConvertFileOpts.DeleteOriginal opts \<longrightarrow>
            Rename (Path opts) (outputPath_of P opts) \<in> set calls \<and>
            (\<forall>e\<in>set calls. mutates e \<longrightarrow> e = Rename (Path opts) (outputPath_of P opts))) \<and>
         (\<not> ConvertFileOpts.DeleteOriginal opts \<longrightarrow>
            Stat (Path opts) \<in> set calls \<and>
            (\<forall>e\<in>set calls. mutates e \<longrightarrow>
               e = Create (outputPath_of P opts) \<or> e = Copy (outputPath_of P opts) (Path opts)) \<and>
            (fileAction = fileActionMove \<longrightarrow>
               Copy (outputPath_of P opts) (Path opts) \<in> set calls))"
proof (cases "ConvertFileOpts.DeleteOriginal opts")
  case True
  with assms show ?thesis
    by (auto simp: ConvertFile_def Let_def logf_def split: if_splits option.splits)
next
  case False
  obtain cerr ccalls where c: "copyFile w (Path opts) (outputPath_of P opts) = (cerr, ccalls)"
    by (cases "copyFile w (Path opts) (outputPath_of P opts)") auto
  from copyFile_result [OF c] False assms c show ?thesis
    by (cases cerr) (auto simp: ConvertFile_def Let_def logf_def split: if_splits)
qed

lemma ConvertFile_converts:
  assumes "ConvertFile P w opts = (err, fileAction, calls)"
    and "filepath_Ext P (Path opts) \<noteq> ConvertFileOpts.TargetExtension opts"
  shows "(\<forall>command argv.
            generateConvertCommand w (ConvertFileOpts.Command opts) (Path opts)
                (outputPath_of P opts) = Inr command \<and>
            splitCommand w command = Inr argv \<and> argv \<noteq> [] \<longrightarrow>
            Exec argv (ConvertFileOpts.Quiet opts) \<in> set calls) \<and>
         (fileAction = fileActionConvert \<longrightarrow>
            (\<exists>command argv.
               generateConvertCommand w (ConvertFileOpts.Command opts) (Path opts)
                   (outputPath_of P opts) = Inr command \<and>
               splitCommand w command = Inr argv \<and> argv \<noteq> [] \<and>
               cmd_Run w argv (ConvertFileOpts.Quiet opts) = None \<and>
               Exec argv (ConvertFileOpts.Quiet opts) \<in> set calls))"
proof (cases "generateConvertCommand w (ConvertFileOpts.Command opts) (Path opts)
                (outputPath_of P opts)")
  case (Inl e)
  with assms show ?thesis
    by (auto simp: ConvertFile_def Let_def)
next
  case (Inr command)
  obtain rerr rcalls where
    r: "runCommand w command (ConvertFileOpts.Quiet opts) = (rerr, rcalls)"
    by (cases "runCommand w command (ConvertFileOpts.Quiet opts)") auto
  from runCommand_result [OF r] Inr assms r show ?thesis
    by (cases rerr)
       (auto simp: ConvertFile_def Let_def logf_def split: if_splits option.splits)
qed

text \<open>\<^verbatim>\<open>ConvertFile\<close> returns an error exactly when it returns \<^verbatim>\<open>fileActionFail\<close>.\<close>

lemma ConvertFile_error_iff:
  "ConvertFile P w fo = (err, fileAction, calls) \<Longrightarrow>
     (err \<noteq> None) = (fileAction = fileActionFail)"
  by (auto simp: ConvertFile_def Let_def split: if_splits option.splits prod.splits sum.splits)

section \<open>Properties of every interleaving\<close>

text \<open>A property that every enabled action preserves holds after every schedule.\<close>

lemma exec_invariant:
  assumes pres: "\<And>a s s'. I s \<Longrightarrow> step N P opts a s = Some s' \<Longrightarrow> I s'"
  shows "I s \<Longrightarrow> exec N P opts sched s = Some s' \<Longrightarrow> I s'"
proof (induction sched arbitrary: s)
  case Nil
  then show ?case by simp
next
  case (Cons a sched)
  then show ?case by (auto split: option.splits dest: pres)
qed

text \<open>Changing one goroutine changes a count by that goroutine alone.\<close>

lemma count_update:
  "i < length gs \<Longrightarrow>
   length (filter p (gs[i := g])) + (if p (gs ! i) then 1 else 0)
     = length (filter p gs) + (if p g then 1 else 0)"
proof (induction gs arbitrary: i)
  case Nil
  then show ?case by simp
next
  case (Cons x gs)
  then show ?case by (cases i) auto
qed

lemma holder_counted:
  "i < length gs \<Longrightarrow> p (gs ! i) \<Longrightarrow> 0 < length (filter p gs)"
  by (metis filter_empty_conv length_greater_0_conv nth_mem)

lemma outcome_count_status [simp]:
  "i < length gs \<Longrightarrow>
   length (filter (has_outcome a) (gs[i := (gs ! i)\<lparr>status := st\<rparr>]))
     = length (filter (has_outcome a) gs)"
  using count_update [of i gs "has_outcome a" "(gs ! i)\<lparr>status := st\<rparr>"]
  by (simp add: has_outcome_def)

lemma outcome_count_set [simp]:
  "i < length gs \<Longrightarrow> outcome (gs ! i) = None \<Longrightarrow>
   length (filter (has_outcome a) (gs[i := (gs ! i)\<lparr>status := st, outcome := x\<rparr>]))
     = length (filter (has_outcome a) gs) + (if x = Some a then 1 else 0)"
  using count_update [of i gs "has_outcome a" "(gs ! i)\<lparr>status := st, outcome := x\<rparr>"]
  by (simp add: has_outcome_def)

lemma has_outcome_fresh [simp]:
  "\<not> has_outcome a \<lparr>inputPath = p, status = st, outcome = None\<rparr>"
  by (simp add: has_outcome_def)

lemma paths_keep [simp]:
  "i < length gs \<Longrightarrow> map inputPath (gs[i := (gs ! i)\<lparr>status := st\<rparr>]) = map inputPath gs"
  "i < length gs \<Longrightarrow>
     map inputPath (gs[i := (gs ! i)\<lparr>status := st, outcome := x\<rparr>]) = map inputPath gs"
  by (simp_all add: map_update list_update_same_conv)

lemma files_of_append [simp]: "files_of (xs @ ys) = files_of xs @ files_of ys"
  by (induction xs rule: files_of.induct) simp_all

lemma walk_errors_of_append [simp]: "walk_errors_of (xs @ ys) = walk_errors_of xs @ walk_errors_of ys"
  by (induction xs rule: walk_errors_of.induct) simp_all

subsection \<open>Each invariant is preserved by each action\<close>

lemma pool_ok_step: "pool_ok N s \<Longrightarrow> step N P opts a s = Some s' \<Longrightarrow> pool_ok N s'"
proof (cases a)
  case Walk
  assume "pool_ok N s" "step N P opts a s = Some s'"
  with Walk show ?thesis
    by (auto simp: pool_ok_def in_flight_def walkFn_def addError_def holds_slot_def
        split: if_splits list.splits walk_entry.splits)
next
  case WalkDone
  assume "pool_ok N s" "step N P opts a s = Some s'"
  with WalkDone show ?thesis
    by (auto simp: pool_ok_def in_flight_def addError_def Let_def split: if_splits option.splits)
next
  case (Acquire i)
  assume "pool_ok N s" "step N P opts a s = Some s'"
  with Acquire show ?thesis
    using count_update [of i "goroutines s" holds_slot "(goroutines s ! i)\<lparr>status := Acquired\<rparr>"]
    by (auto simp: pool_ok_def in_flight_def setStatus_def at_status_def holds_slot_def split: if_splits)
next
  case (Body i w)
  assume "pool_ok N s" "step N P opts a s = Some s'"
  with Body show ?thesis
    using count_update [of i "goroutines s" holds_slot "(goroutines s ! i)\<lparr>status := Ran, outcome := x\<rparr>" for x]
    by (auto simp: pool_ok_def in_flight_def at_status_def holds_slot_def goroutineBody_def
        countAction_def addError_def Let_def
        split: if_splits prod.splits option.splits fileActionType.splits)
next
  case (Release i)
  assume "pool_ok N s" "step N P opts a s = Some s'"
  with Release show ?thesis
    using count_update [of i "goroutines s" holds_slot "(goroutines s ! i)\<lparr>status := Released\<rparr>"]
    by (auto simp: pool_ok_def in_flight_def setStatus_def at_status_def holds_slot_def split: if_splits)
next
  case (Done i)
  assume "pool_ok N s" "step N P opts a s = Some s'"
  with Done show ?thesis
    using count_update [of i "goroutines s" holds_slot "(goroutines s ! i)\<lparr>status := Finished\<rparr>"]
    by (auto simp: pool_ok_def in_flight_def setStatus_def at_status_def holds_slot_def split: if_splits)
qed

lemma wg_ok_step: "wg_ok s \<Longrightarrow> step N P opts a s = Some s' \<Longrightarrow> wg_ok s'"
proof (cases a)
  case Walk
  assume "wg_ok s" "step N P opts a s = Some s'"
  with Walk show ?thesis
    by (auto simp: wg_ok_def walkFn_def addError_def unfinished_def
        split: if_splits list.splits walk_entry.splits)
next
  case WalkDone
  assume "wg_ok s" "step N P opts a s = Some s'"
  with WalkDone show ?thesis
    by (auto simp: wg_ok_def addError_def Let_def split: if_splits option.splits)
next
  case (Acquire i)
  assume "wg_ok s" "step N P opts a s = Some s'"
  with Acquire show ?thesis
    using count_update [of i "goroutines s" unfinished "(goroutines s ! i)\<lparr>status := Acquired\<rparr>"]
    by (auto simp: wg_ok_def setStatus_def at_status_def unfinished_def split: if_splits)
next
  case (Body i w)
  assume "wg_ok s" "step N P opts a s = Some s'"
  with Body show ?thesis
    using count_update [of i "goroutines s" unfinished "(goroutines s ! i)\<lparr>status := Ran, outcome := x\<rparr>" for x]
    by (auto simp: wg_ok_def at_status_def unfinished_def goroutineBody_def
        countAction_def addError_def Let_def
        split: if_splits prod.splits option.splits fileActionType.splits)
next
  case (Release i)
  assume "wg_ok s" "step N P opts a s = Some s'"
  with Release show ?thesis
    using count_update [of i "goroutines s" unfinished "(goroutines s ! i)\<lparr>status := Released\<rparr>"]
    by (auto simp: wg_ok_def setStatus_def at_status_def unfinished_def split: if_splits)
next
  case (Done i)
  assume "wg_ok s" "step N P opts a s = Some s'"
  with Done show ?thesis
    using count_update [of i "goroutines s" unfinished "(goroutines s ! i)\<lparr>status := Finished\<rparr>"]
    by (auto simp: wg_ok_def setStatus_def at_status_def unfinished_def split: if_splits)
qed

lemma walkFn_continues: "snd (walkFn e s) = None"
  by (simp add: walkFn_def split: walk_entry.splits)

lemma walk_ok_step: "walk_ok entries s \<Longrightarrow> step N P opts a s = Some s' \<Longrightarrow> walk_ok entries s'"
proof (cases a)
  case Walk
  assume "walk_ok entries s" "step N P opts a s = Some s'"
  with Walk show ?thesis
    by (auto simp: walk_ok_def walkFn_def addError_def
        split: if_splits list.splits walk_entry.splits)
next
  case WalkDone
  assume "walk_ok entries s" "step N P opts a s = Some s'"
  with WalkDone show ?thesis
    by (auto simp: walk_ok_def addError_def Let_def split: if_splits option.splits)
next
  case (Acquire i)
  assume "walk_ok entries s" "step N P opts a s = Some s'"
  with Acquire show ?thesis
    by (auto simp: walk_ok_def setStatus_def at_status_def split: if_splits)
next
  case (Body i w)
  assume "walk_ok entries s" "step N P opts a s = Some s'"
  with Body show ?thesis
    by (auto simp: walk_ok_def at_status_def goroutineBody_def
        countAction_def addError_def Let_def
        split: if_splits prod.splits option.splits fileActionType.splits)
next
  case (Release i)
  assume "walk_ok entries s" "step N P opts a s = Some s'"
  with Release show ?thesis
    by (auto simp: walk_ok_def setStatus_def at_status_def split: if_splits)
next
  case (Done i)
  assume "walk_ok entries s" "step N P opts a s = Some s'"
  with Done show ?thesis
    by (auto simp: walk_ok_def setStatus_def at_status_def split: if_splits)
qed

lemma outcomes_ok_step:
  "outcomes_ok opts s \<Longrightarrow> step N P opts a s = Some s' \<Longrightarrow> outcomes_ok opts s'"
proof (cases a)
  case Walk
  assume "outcomes_ok opts s" "step N P opts a s = Some s'"
  with Walk show ?thesis
    by (auto simp: outcomes_ok_def walkFn_def addError_def body_done_def nth_append
        split: if_splits list.splits walk_entry.splits)
next
  case WalkDone
  assume "outcomes_ok opts s" "step N P opts a s = Some s'"
  with WalkDone show ?thesis
    by (auto simp: outcomes_ok_def addError_def Let_def split: if_splits option.splits)
next
  case (Acquire i)
  assume "outcomes_ok opts s" "step N P opts a s = Some s'"
  with Acquire show ?thesis
    by (auto simp: outcomes_ok_def setStatus_def at_status_def body_done_def nth_list_update
        split: if_splits)
next
  case (Body i w)
  assume "outcomes_ok opts s" "step N P opts a s = Some s'"
  with Body show ?thesis
    by (auto simp: outcomes_ok_def at_status_def body_done_def goroutineBody_def nth_list_update
        countAction_def addError_def Let_def
        split: if_splits prod.splits option.splits fileActionType.splits)
next
  case (Release i)
  assume "outcomes_ok opts s" "step N P opts a s = Some s'"
  with Release show ?thesis
    by (auto simp: outcomes_ok_def setStatus_def at_status_def body_done_def nth_list_update
        split: if_splits)
next
  case (Done i)
  assume "outcomes_ok opts s" "step N P opts a s = Some s'"
  with Done show ?thesis
    by (auto simp: outcomes_ok_def setStatus_def at_status_def body_done_def nth_list_update
        split: if_splits)
qed

lemma not_yet_no_outcome:
  "outcomes_ok opts s \<Longrightarrow> at_status s i Acquired \<Longrightarrow> outcome (goroutines s ! i) = None"
  by (auto simp: outcomes_ok_def at_status_def body_done_def)

lemma tally_ok_step:
  assumes "outcomes_ok opts s" and "tally_ok s" and "step N P opts a s = Some s'"
  shows "tally_ok s'"
proof (cases a)
  case Walk
  with assms show ?thesis
    by (auto simp: tally_ok_def walkFn_def addError_def
        split: if_splits list.splits walk_entry.splits)
next
  case WalkDone
  with assms show ?thesis
    by (auto simp: tally_ok_def addError_def Let_def split: if_splits option.splits)
next
  case (Acquire i)
  with assms show ?thesis
    by (auto simp: tally_ok_def setStatus_def at_status_def split: if_splits)
next
  case (Body i w)
  with assms have at: "at_status s i Acquired"
    by (simp split: if_splits)
  then have none: "outcome (goroutines s ! i) = None" and len: "i < length (goroutines s)"
    using assms(1) by (auto dest: not_yet_no_outcome simp: at_status_def)
  show ?thesis
  proof (cases "shouldProcess opts (inputPath (goroutines s ! i))")
    case False
    with Body assms at none len show ?thesis
      by (auto simp: tally_ok_def goroutineBody_def)
  next
    case True
    obtain err fileAction calls where
      cf: "ConvertFile P w (fileOpts opts (inputPath (goroutines s ! i))) = (err, fileAction, calls)"
      by (cases "ConvertFile P w (fileOpts opts (inputPath (goroutines s ! i)))") auto
    from ConvertFile_error_iff [OF cf] have ef: "(err \<noteq> None) = (fileAction = fileActionFail)" .
    show ?thesis
    proof (cases err)
      case None
      with ef have "fileAction \<noteq> fileActionFail" by simp
      with None Body assms at none len True cf show ?thesis
        by (cases fileAction)
           (auto simp: tally_ok_def goroutineBody_def countAction_def addError_def Let_def)
    next
      case (Some e)
      with ef have "fileAction = fileActionFail" by simp
      with Some Body assms at none len True cf show ?thesis
        by (auto simp: tally_ok_def goroutineBody_def countAction_def addError_def Let_def)
    qed
  qed
next
  case (Release i)
  with assms show ?thesis
    by (auto simp: tally_ok_def setStatus_def at_status_def split: if_splits)
next
  case (Done i)
  with assms show ?thesis
    by (auto simp: tally_ok_def setStatus_def at_status_def split: if_splits)
qed

subsection \<open>The invariants hold in every state a run reaches\<close>

lemma start_ok:
  "pool_ok N (start N opts entries)" "wg_ok (start N opts entries)"
  "walk_ok entries (start N opts entries)" "outcomes_ok opts (start N opts entries)"
  "tally_ok (start N opts entries)"
  by (simp_all add: start_def pool_ok_def in_flight_def wg_ok_def walk_ok_def outcomes_ok_def tally_ok_def)

lemma run_ok_reachable:
  assumes "exec N P opts sched (start N opts entries) = Some s"
  shows "run_ok N opts entries s"
proof (rule exec_invariant [where I = "run_ok N opts entries", OF _ _ assms])
  show "run_ok N opts entries (start N opts entries)"
    by (simp add: run_ok_def start_ok)
next
  fix a s s'
  assume "run_ok N opts entries s" and "step N P opts a s = Some s'"
  then show "run_ok N opts entries s'"
    unfolding run_ok_def
    by (blast intro: pool_ok_step wg_ok_step walk_ok_step outcomes_ok_step tally_ok_step)
qed

lemma ConvertDir_SomeD:
  assumes "ConvertDir N P opts entries sched = Some (res, s)"
  obtains s0 where "exec N P opts sched (start N opts entries) = Some s0"
    and "phase s0 = Waiting" and "wg s0 = 0"
    and "res = fst (report opts s0)"
    and "s = s0\<lparr>trace := trace s0 @ snd (report opts s0)\<rparr>"
  using assms
  by (auto simp: ConvertDir_def split: option.splits if_splits prod.splits)

lemma completed_run:
  assumes "ConvertDir N P opts entries sched = Some (res, s)"
  obtains s0 where "run_ok N opts entries s0" and "phase s0 = Waiting" and "wg s0 = 0"
    and "res = fst (report opts s0)"
    and "s = s0\<lparr>trace := trace s0 @ snd (report opts s0)\<rparr>"
proof -
  from assms obtain s0 where e: "exec N P opts sched (start N opts entries) = Some s0"
    and r: "phase s0 = Waiting" "wg s0 = 0" "res = fst (report opts s0)"
      "s = s0\<lparr>trace := trace s0 @ snd (report opts s0)\<rparr>"
    by (rule ConvertDir_SomeD)
  from run_ok_reachable [OF e] r that show ?thesis by blast
qed

lemma all_finished:
  assumes "wg_ok s" and "wg s = 0"
  shows "\<forall>g\<in>set (goroutines s). status g = Finished"
  using assms by (auto simp: wg_ok_def filter_empty_conv unfinished_def)

subsection \<open>A run that returns\<close>

text \<open>
  The counters add up to the number of files for which the decision was to process,
  and the run returns an error exactly when an error was collected: one for each
  entry the walk could not read and one for each failed file.
\<close>

lemma outcome_partition:
  "length (filter (\<lambda>g. outcome g \<noteq> None) gs)
     = length (filter (has_outcome fileActionFail) gs)
       + length (filter (has_outcome fileActionConvert) gs)
       + length (filter (has_outcome fileActionMove) gs)
       + length (filter (has_outcome fileActionSkip) gs)"
proof (induction gs)
  case Nil
  then show ?case by simp
next
  case (Cons g gs)
  show ?case
  proof (cases "outcome g")
    case None
    with Cons show ?thesis by (simp add: has_outcome_def)
  next
    case (Some a)
    with Cons show ?thesis by (cases a) (simp_all add: has_outcome_def)
  qed
qed

lemma processed_goroutines:
  assumes "outcomes_ok opts s" and "\<forall>g\<in>set (goroutines s). status g = Finished"
  shows "filter (\<lambda>g. outcome g \<noteq> None) (goroutines s)
           = filter (\<lambda>g. shouldProcess opts (inputPath g)) (goroutines s)"
proof (rule filter_cong [OF refl])
  fix g assume "g \<in> set (goroutines s)"
  then obtain j where "j < length (goroutines s)" "goroutines s ! j = g"
    by (auto simp: in_set_conv_nth)
  with assms show "(outcome g \<noteq> None) = shouldProcess opts (inputPath g)"
    by (auto simp: outcomes_ok_def body_done_def)
qed

lemma counters_of_completed_run:
  assumes "ConvertDir N P opts entries sched = Some (res, s)"
  shows "processedFiles s + movedFiles s + skippedFiles s + failedFiles s
           = int (length (filter (shouldProcess opts) (files_of entries)))"
proof -
  from assms obtain s0 where ok: "run_ok N opts entries s0"
    and w: "phase s0 = Waiting" "wg s0 = 0"
    and s: "s = s0\<lparr>trace := trace s0 @ snd (report opts s0)\<rparr>"
    by (rule completed_run)
  from ok w have fin: "\<forall>g\<in>set (goroutines s0). status g = Finished"
    using all_finished [of s0] by (simp add: run_ok_def)
  from ok w have paths: "map inputPath (goroutines s0) = files_of entries"
    by (auto simp: run_ok_def walk_ok_def)
  from ok have "processedFiles s0 + movedFiles s0 + skippedFiles s0 + failedFiles s0
      = int (length (filter (\<lambda>g. outcome g \<noteq> None) (goroutines s0)))"
    using outcome_partition [of "goroutines s0"] by (simp add: run_ok_def tally_ok_def)
  also from ok fin have "\<dots> = int (length (filter (\<lambda>g. shouldProcess opts (inputPath g)) (goroutines s0)))"
    using processed_goroutines [of opts s0] by (simp add: run_ok_def)
  also have "\<dots> = int (length (filter (shouldProcess opts) (map inputPath (goroutines s0))))"
    by (simp add: filter_map comp_def)
  finally show ?thesis using s paths by simp
qed

lemma walk_error_recorded:
  "WalkErr path err \<in> set es \<Longrightarrow> (''error accessing '' @ path @ '': '' @ err) \<in> set (walk_errors_of es)"
  by (induction es rule: walk_errors_of.induct) auto

lemma result_of_completed_run:
  assumes "ConvertDir N P opts entries sched = Some (res, s)"
  shows "(res \<noteq> None) = (collectedErrors s \<noteq> [])"
    and "int (length (collectedErrors s)) = int (length (walk_errors_of entries)) + failedFiles s"
proof -
  from assms obtain s0 where ok: "run_ok N opts entries s0"
    and w: "phase s0 = Waiting" "wg s0 = 0" and r: "res = fst (report opts s0)"
    and s: "s = s0\<lparr>trace := trace s0 @ snd (report opts s0)\<rparr>"
    by (rule completed_run)
  from r s show "(res \<noteq> None) = (collectedErrors s \<noteq> [])"
    by (simp add: report_def)
  from ok w have "visited s0 = entries"
    by (auto simp: run_ok_def walk_ok_def)
  with ok s show "int (length (collectedErrors s)) = int (length (walk_errors_of entries)) + failedFiles s"
    by (simp add: run_ok_def tally_ok_def)
qed

lemma summary_only_without_errors:
  "Log (nl @ ''=== conversion summary ==='' @ nl) \<in> set (snd (report opts s))
     \<longleftrightarrow> collectedErrors s = [] \<and> \<not> Quiet opts"
  by (auto simp: report_def nl_def in_set_enumerate_eq)

text \<open>
  In particular a run in which no entry was unreadable and no file failed returns
  \<^verbatim>\<open>nil\<close>; that includes the run over a tree without files.
\<close>

lemma run_without_failures_succeeds:
  assumes "ConvertDir N P opts entries sched = Some (res, s)"
    and "walk_errors_of entries = []" and "failedFiles s = 0"
  shows "res = None"
  using result_of_completed_run [OF assms(1)] assms(2,3) by simp

lemma empty_walk_succeeds:
  "\<exists>s. ConvertDir N P opts [] [WalkDone] = Some (None, s)"
  by (simp add: ConvertDir_def start_def report_def Let_def)

subsection \<open>Every walk has a run that returns\<close>

text \<open>
  With at least one slot in the pool the schedule \<open>sequential\<close> is one the program
  can follow to its end, whatever the entries and the answers of the world.
\<close>

lemma exec_append:
  "exec N P opts (xs @ ys) s =
     (case exec N P opts xs s of None \<Rightarrow> None | Some s' \<Rightarrow> exec N P opts ys s')"
  by (induction xs arbitrary: s) (auto split: option.splits)

lemma goroutineBody_frame:
  assumes "goroutineBody P w opts p s = (s', r)"
  shows "phase s' = phase s \<and> pending s' = pending s \<and> visited s' = visited s \<and>
         walk_error s' = walk_error s \<and> goroutines s' = goroutines s \<and>
         wg s' = wg s \<and> sem s' = sem s"
  using assms
  by (auto simp: goroutineBody_def countAction_def addError_def Let_def
      split: if_splits prod.splits option.splits fileActionType.splits)

lemma file_block:
  assumes "0 < N" and "phase s = Walking" and "pending s = WalkFile p # es"
    and "length (goroutines s) = k" and "sem s = 0" and "wg s = 0"
  shows "\<exists>s'. exec N P opts [Walk, Acquire k, Body k w, Release k, Done k] s = Some s' \<and>
           phase s' = Walking \<and> pending s' = es \<and> length (goroutines s') = Suc k \<and>
           sem s' = 0 \<and> wg s' = 0"
proof -
  define s1 where "s1 = s\<lparr>wg := 1, goroutines := goroutines s
                @ [\<lparr>inputPath = p, status = Spawned, outcome = None\<rparr>], pending := es, visited := visited s @ [WalkFile p]\<rparr>"
  have 1: "step N P opts Walk s = Some s1"
    using assms by (simp add: s1_def walkFn_def)
  define s2 where "s2 = setStatus k Acquired (s1\<lparr>sem := 1\<rparr>)"
  have 2: "step N P opts (Acquire k) s1 = Some s2"
    using assms by (simp add: s1_def s2_def at_status_def nth_append)
  have at2: "at_status s2 k Acquired" and p2: "inputPath (goroutines s2 ! k) = p"
    using assms by (simp_all add: s1_def s2_def at_status_def setStatus_def nth_append)
  obtain b r where br: "goroutineBody P w opts p s2 = (b, r)"
    by (cases "goroutineBody P w opts p s2") auto
  note fr = goroutineBody_frame [OF br]
  define s3 where "s3 = b\<lparr>goroutines := (goroutines b)[k := (goroutines b ! k)\<lparr>status := Ran, outcome := r\<rparr>]\<rparr>"
  have 3: "step N P opts (Body k w) s2 = Some s3"
    using at2 p2 br by (simp add: s3_def)
  define s4 where "s4 = setStatus k Released (s3\<lparr>sem := sem s3 - 1\<rparr>)"
  have 4: "step N P opts (Release k) s3 = Some s4"
    using assms fr by (simp add: s4_def s3_def s2_def s1_def at_status_def setStatus_def nth_append)
  define s5 where "s5 = setStatus k Finished (s4\<lparr>wg := wg s4 - 1\<rparr>)"
  have 5: "step N P opts (Done k) s4 = Some s5"
    using assms fr by (simp add: s5_def s4_def s3_def s2_def s1_def at_status_def setStatus_def nth_append)
  have "phase s5 = Walking \<and> pending s5 = es \<and> length (goroutines s5) = Suc k \<and>
           sem s5 = 0 \<and> wg s5 = 0"
    using assms fr by (simp add: s5_def s4_def s3_def s2_def s1_def setStatus_def nth_append)
  with 1 2 3 4 5 show ?thesis by simp
qed

lemma other_entry:
  assumes "phase s = Walking" and "pending s = e # es" and "files_of [e] = []"
    and "length (goroutines s) = k" and "sem s = 0" and "wg s = 0"
  shows "\<exists>s'. step N P opts Walk s = Some s' \<and>
           phase s' = Walking \<and> pending s' = es \<and> length (goroutines s') = k \<and>
           sem s' = 0 \<and> wg s' = 0"
  using assms by (cases e) (simp_all add: walkFn_def addError_def)

lemma sequential_runs:
  assumes "0 < N"
  shows "phase s = Walking \<Longrightarrow> pending s = es \<Longrightarrow> length (goroutines s) = k \<Longrightarrow>
         sem s = 0 \<Longrightarrow> wg s = 0 \<Longrightarrow>
         \<exists>s'. exec N P opts (sequential W k es) s = Some s' \<and> phase s' = Waiting \<and> wg s' = 0"
proof (induction es arbitrary: s k)
  case Nil
  then show ?case by (simp add: Let_def addError_def split: option.splits)
next
  case (Cons e es)
  show ?case
  proof (cases "files_of [e] = []")
    case True
    from other_entry [OF Cons.prems(1,2) True Cons.prems(3,4,5), of N P opts]
    obtain s1 where s1: "step N P opts Walk s = Some s1" "phase s1 = Walking"
      "pending s1 = es" "length (goroutines s1) = k" "sem s1 = 0" "wg s1 = 0"
      by blast
    from True have "sequential W k (e # es) = Walk # sequential W k es"
      by (cases e) simp_all
    with Cons.IH [OF s1(2-6)] s1(1) show ?thesis by simp
  next
    case False
    then obtain path where e: "e = WalkFile path"
      by (cases e) simp_all
    from file_block [OF assms Cons.prems(1) Cons.prems(2) [unfolded e] Cons.prems(3,4,5),
        of P opts "W path"]
    obtain s' where
      b: "exec N P opts [Walk, Acquire k, Body k (W path), Release k, Done k] s = Some s'"
      and s': "phase s' = Walking" "pending s' = es" "length (goroutines s') = Suc k"
        "sem s' = 0" "wg s' = 0"
      by blast
    from Cons.IH [OF s'] obtain s'' where
      "exec N P opts (sequential W (Suc k) es) s' = Some s''" "phase s'' = Waiting" "wg s'' = 0"
      by blast
    with b e show ?thesis
      using exec_append [of N P opts "[Walk, Acquire k, Body k (W path), Release k, Done k]"
          "sequential W (Suc k) es" s]
      by simp
  qed
qed

lemma sequential_completes:
  assumes "0 < N"
  shows "\<exists>res s. ConvertDir N P opts entries (sequential W 0 entries) = Some (res, s)"
proof -
  from sequential_runs [OF assms, of "start N opts entries" entries 0 P opts W]
  obtain s' where "exec N P opts (sequential W 0 entries) (start N opts entries) = Some s'"
    "phase s' = Waiting" "wg s' = 0"
    by (auto simp: start_def)
  then show ?thesis
    by (simp add: ConvertDir_def split: prod.splits)
qed

subsection \<open>Every file to process is handed to ConvertFile\<close>

lemma calls_made_grow:
  assumes "calls_made P opts s" and "goroutines s' = goroutines s"
    and "set (trace s) \<subseteq> set (trace s')"
    and "set (collectedErrors s) \<subseteq> set (collectedErrors s')"
  shows "calls_made P opts s'"
  unfolding calls_made_def
proof (intro allI impI)
  fix j a
  assume j: "j < length (goroutines s')" and a: "outcome (goroutines s' ! j) = Some a"
  with assms(1,2) obtain w err calls where
    "ConvertFile P w (fileOpts opts (inputPath (goroutines s ! j))) = (err, a, calls)"
    "set calls \<subseteq> set (trace s)" "\<forall>e. err = Some e \<longrightarrow> e \<in> set (collectedErrors s)"
    unfolding calls_made_def by (metis (no_types, lifting))
  with assms(2,3,4) show "\<exists>w err calls.
           ConvertFile P w (fileOpts opts (inputPath (goroutines s' ! j))) = (err, a, calls) \<and>
           set calls \<subseteq> set (trace s') \<and>
           (\<forall>e. err = Some e \<longrightarrow> e \<in> set (collectedErrors s'))"
    by (metis (no_types, lifting) subset_iff)
qed

lemma calls_made_status:
  assumes "calls_made P opts s" and "i < length (goroutines s)"
  shows "calls_made P opts (setStatus i st (s\<lparr>sem := m\<rparr>))"
    and "calls_made P opts (setStatus i st (s\<lparr>wg := n\<rparr>))"
  using assms
  by (auto simp: calls_made_def setStatus_def nth_list_update)

lemma goroutineBody_calls:
  assumes "goroutineBody P w opts p s = (s', r)"
  shows "set (trace s) \<subseteq> set (trace s') \<and> set (collectedErrors s) \<subseteq> set (collectedErrors s') \<and>
         (\<forall>a. r = Some a \<longrightarrow>
            (\<exists>err calls. ConvertFile P w (fileOpts opts p) = (err, a, calls) \<and>
               set calls \<subseteq> set (trace s') \<and>
               (\<forall>e. err = Some e \<longrightarrow> e \<in> set (collectedErrors s'))))"
  using assms
  by (auto simp: goroutineBody_def countAction_def addError_def Let_def
      split: if_splits prod.splits option.splits fileActionType.splits)

lemma calls_made_step:
  assumes "calls_made P opts s" and "step N P opts a s = Some s'"
  shows "calls_made P opts s'"
proof (cases a)
  case Walk
  with assms(2) obtain e rest where p: "phase s = Walking" "pending s = e # rest"
    by (auto split: if_splits list.splits)
  show ?thesis
  proof (cases "files_of [e] = []")
    case True
    with Walk assms(2) p have "goroutines s' = goroutines s" "set (trace s) \<subseteq> set (trace s')"
      "set (collectedErrors s) \<subseteq> set (collectedErrors s')"
      by (cases e; auto simp: walkFn_def addError_def)+
    with assms(1) show ?thesis by (rule calls_made_grow)
  next
    case False
    then obtain path where "e = WalkFile path" by (cases e) simp_all
    with Walk assms p show ?thesis
      by (auto simp: calls_made_def walkFn_def nth_append)
  qed
next
  case WalkDone
  with assms(2) have "goroutines s' = goroutines s" "set (trace s) \<subseteq> set (trace s')"
    "set (collectedErrors s) \<subseteq> set (collectedErrors s')"
    by (auto simp: addError_def Let_def split: if_splits option.splits)
  with assms(1) show ?thesis by (rule calls_made_grow)
next
  case (Acquire i)
  with assms show ?thesis
    by (auto simp: at_status_def calls_made_status split: if_splits)
next
  case (Body i w)
  with assms(2) have at: "at_status s i Acquired"
    by (simp split: if_splits)
  obtain b r where br: "goroutineBody P w opts (inputPath (goroutines s ! i)) s = (b, r)"
    by (cases "goroutineBody P w opts (inputPath (goroutines s ! i)) s") auto
  from goroutineBody_frame [OF br] have gs: "goroutines b = goroutines s" by simp
  from goroutineBody_calls [OF br] have
    grow: "set (trace s) \<subseteq> set (trace b)" "set (collectedErrors s) \<subseteq> set (collectedErrors b)"
    and new: "\<forall>a. r = Some a \<longrightarrow>
            (\<exists>err calls. ConvertFile P w (fileOpts opts (inputPath (goroutines s ! i))) = (err, a, calls) \<and>
               set calls \<subseteq> set (trace b) \<and>
               (\<forall>e. err = Some e \<longrightarrow> e \<in> set (collectedErrors b)))"
    by blast+
  from calls_made_grow [OF assms(1) gs grow] have cb: "calls_made P opts b" .
  from Body assms(2) at br
  have s': "s' = b\<lparr>goroutines := (goroutines b)[i := (goroutines b ! i)\<lparr>status := Ran, outcome := r\<rparr>]\<rparr>"
    by simp
  show ?thesis
    unfolding calls_made_def
  proof (intro allI impI)
    fix j a
    assume j: "j < length (goroutines s')" and a: "outcome (goroutines s' ! j) = Some a"
    show "\<exists>w err calls.
           ConvertFile P w (fileOpts opts (inputPath (goroutines s' ! j))) = (err, a, calls) \<and>
           set calls \<subseteq> set (trace s') \<and>
           (\<forall>e. err = Some e \<longrightarrow> e \<in> set (collectedErrors s'))"
    proof (cases "j = i")
      case True
      with j a s' gs have "r = Some a" and "inputPath (goroutines s' ! j) = inputPath (goroutines s ! i)"
        by simp_all
      with new s' show ?thesis by auto
    next
      case False
      with j a s' have "j < length (goroutines b)" "outcome (goroutines b ! j) = Some a"
        "goroutines s' ! j = goroutines b ! j"
        by simp_all
      with cb s' show ?thesis
        unfolding calls_made_def by auto
    qed
  qed
next
  case (Release i)
  with assms show ?thesis
    by (auto simp: at_status_def calls_made_status split: if_splits)
next
  case (Done i)
  with assms show ?thesis
    by (auto simp: at_status_def calls_made_status split: if_splits)
qed

lemma calls_made_reachable:
  assumes "exec N P opts sched (start N opts entries) = Some s"
  shows "calls_made P opts s"
proof (rule exec_invariant [where I = "calls_made P opts", OF _ _ assms])
  show "calls_made P opts (start N opts entries)"
    by (simp add: calls_made_def start_def)
qed (rule calls_made_step)

subsection \<open>The walk is never cut short\<close>

text \<open>
  The walk is never cut short. The callback returns \<^verbatim>\<open>nil\<close> for every entry; with
  at least one slot in the pool there is a run that returns, whatever entries are
  unreadable; and in every run that returns all entries have been presented, every
  file has had its goroutine run to the end, every file for which the decision was to
  process has been handed to \<^verbatim>\<open>ConvertFile\<close> (its outcome is the action returned,
  its calls are in the trace, its error is collected), the message of every
  unreadable entry is among the collected errors, and the run returns an error.
\<close>

lemma returned_run:
  assumes run: "ConvertDir N P opts entries sched = Some (res, s)"
  shows "visited s = entries"
    and "map inputPath (goroutines s) = files_of entries"
    and "\<forall>g\<in>set (goroutines s).
           status g = Finished \<and>
           (shouldProcess opts (inputPath g) \<longrightarrow>
              (\<exists>w err a calls.
                 ConvertFile P w (fileOpts opts (inputPath g)) = (err, a, calls) \<and>
                 outcome g = Some a \<and> set calls \<subseteq> set (trace s) \<and>
                 (\<forall>e. err = Some e \<longrightarrow> e \<in> set (collectedErrors s))))"
    and "\<forall>path err. WalkErr path err \<in> set entries \<longrightarrow>
           (''error accessing '' @ path @ '': '' @ err) \<in> set (collectedErrors s) \<and>
           res \<noteq> None"
proof -
  from run obtain s0 where e: "exec N P opts sched (start N opts entries) = Some s0"
    and w: "phase s0 = Waiting" "wg s0 = 0"
    and s: "s = s0\<lparr>trace := trace s0 @ snd (report opts s0)\<rparr>"
    by (rule ConvertDir_SomeD)
  from run_ok_reachable [OF e] have ok: "run_ok N opts entries s0" .
  from calls_made_reachable [OF e] have cm: "calls_made P opts s0" .
  from ok w have all: "visited s0 = entries"
    and paths: "map inputPath (goroutines s0) = files_of entries"
    by (auto simp: run_ok_def walk_ok_def)
  from ok w have fin: "\<forall>g\<in>set (goroutines s0). status g = Finished"
    using all_finished [of s0] by (simp add: run_ok_def)
  from all s show "visited s = entries" by simp
  from paths s show "map inputPath (goroutines s) = files_of entries" by simp
  show "\<forall>g\<in>set (goroutines s).
           status g = Finished \<and>
           (shouldProcess opts (inputPath g) \<longrightarrow>
              (\<exists>w err a calls.
                 ConvertFile P w (fileOpts opts (inputPath g)) = (err, a, calls) \<and>
                 outcome g = Some a \<and> set calls \<subseteq> set (trace s) \<and>
                 (\<forall>e. err = Some e \<longrightarrow> e \<in> set (collectedErrors s))))"
  proof (intro ballI conjI impI)
    fix g assume g: "g \<in> set (goroutines s)"
    with s fin show "status g = Finished" by simp
    assume sp: "shouldProcess opts (inputPath g)"
    from g s obtain j where j: "j < length (goroutines s0)" "goroutines s0 ! j = g"
      by (auto simp: in_set_conv_nth)
    with ok fin g s sp obtain a where a: "outcome g = Some a"
      by (auto simp: run_ok_def outcomes_ok_def body_done_def)
    with cm j obtain w err calls where
      "ConvertFile P w (fileOpts opts (inputPath g)) = (err, a, calls)"
      "set calls \<subseteq> set (trace s0)" "\<forall>e. err = Some e \<longrightarrow> e \<in> set (collectedErrors s0)"
      unfolding calls_made_def by (metis (no_types, lifting))
    with a s show "\<exists>w err a calls.
               ConvertFile P w (fileOpts opts (inputPath g)) = (err, a, calls) \<and>
               outcome g = Some a \<and> set calls \<subseteq> set (trace s) \<and>
               (\<forall>e. err = Some e \<longrightarrow> e \<in> set (collectedErrors s))"
      by auto
  qed
  show "\<forall>path err. WalkErr path err \<in> set entries \<longrightarrow>
           (''error accessing '' @ path @ '': '' @ err) \<in> set (collectedErrors s) \<and>
           res \<noteq> None"
  proof (intro allI impI)
    fix path err assume m: "WalkErr path err \<in> set entries"
    from ok all have "set (walk_errors_of entries) \<subseteq> set (collectedErrors s0)"
      by (simp add: run_ok_def tally_ok_def)
    with walk_error_recorded [OF m] s
    have in_s: "(''error accessing '' @ path @ '': '' @ err) \<in> set (collectedErrors s)"
      by auto
    then have "collectedErrors s \<noteq> []" by auto
    with result_of_completed_run(1) [OF run] in_s
    show "(''error accessing '' @ path @ '': '' @ err) \<in> set (collectedErrors s) \<and>
           res \<noteq> None"
      by simp
  qed
qed

lemma walk_goes_on_after_unreadable_entries:
  "(\<forall>e r. snd (walkFn e r) = None) \<and>
   (0 < N \<longrightarrow> (\<exists>res s. ConvertDir N P opts entries (sequential W 0 entries) = Some (res, s))) \<and>
   (\<forall>sched res s. ConvertDir N P opts entries sched = Some (res, s) \<longrightarrow>
      visited s = entries \<and>
      map inputPath (goroutines s) = files_of entries \<and>
      (\<forall>g\<in>set (goroutines s).
         status g = Finished \<and>
         (shouldProcess opts (inputPath g) \<longrightarrow>
            (\<exists>w err a calls.
               ConvertFile P w (fileOpts opts (inputPath g)) = (err, a, calls) \<and>
               outcome g = Some a \<and> set calls \<subseteq> set (trace s) \<and>
               (\<forall>e. err = Some e \<longrightarrow> e \<in> set (collectedErrors s))))) \<and>
      (\<forall>path err. WalkErr path err \<in> set entries \<longrightarrow>
         (''error accessing '' @ path @ '': '' @ err) \<in> set (collectedErrors s) \<and>
         res \<noteq> None))"
  using walkFn_continues sequential_completes [of N P opts entries W]
    returned_run [of N P opts entries]
  by (intro conjI allI impI) blast+

section \<open>The claims\<close>

subsection \<open>Eligibility\<close>

text \<open>
  Claim C1: a file whose extension is in a non-empty \<^verbatim>\<open>Sources\<close> list is never
  skipped by \<^verbatim>\<open>ConvertDir\<close>. The code asks \<^verbatim>\<open>slices.Contains\<close> for the target
  extension, not for the extension of the file. With \<^verbatim>\<open>Sources = [".opus"]\<close>,
  \<^verbatim>\<open>Except = [".mp3"]\<close> and target \<^verbatim>\<open>.mp3\<close>, the file \<^verbatim>\<open>music/song.opus\<close> has an
  allowed extension and yet the decision is not to process it: the body of its
  goroutine leaves the state as it is and calls nothing.
\<close>

theorem C1_allowed_extension_is_skipped:
  "Sources (to_mp3 [''.opus''] [''.mp3'']) \<noteq> [] \<and>
   unix_Ext ''music/song.opus'' \<in> set (Sources (to_mp3 [''.opus''] [''.mp3''])) \<and>
   \<not> shouldProcess (to_mp3 [''.opus''] [''.mp3'']) ''music/song.opus'' \<and>
   goroutineBody unix fine (to_mp3 [''.opus''] [''.mp3'']) ''music/song.opus''
       (start 4 (to_mp3 [''.opus''] [''.mp3'']) [WalkFile ''music/song.opus''])
     = (start 4 (to_mp3 [''.opus''] [''.mp3'']) [WalkFile ''music/song.opus''], None)"
  by code_simp

text \<open>
  Claim C2: with no \<^verbatim>\<open>Sources\<close>, a file whose extension is in \<^verbatim>\<open>Except\<close> is always
  skipped. With \<^verbatim>\<open>Except = [".txt"]\<close> and target \<^verbatim>\<open>.mp3\<close> the code decides to process
  \<^verbatim>\<open>music/note.txt\<close>, and \<^verbatim>\<open>ConvertFile\<close> runs the external command on it.
\<close>

theorem C2_denied_extension_is_converted:
  "Sources (to_mp3 [] [''.txt'']) = [] \<and>
   unix_Ext ''music/note.txt'' \<in> set (Except (to_mp3 [] [''.txt''])) \<and>
   shouldProcess (to_mp3 [] [''.txt'']) ''music/note.txt'' \<and>
   ConvertFile unix fine (fileOpts (to_mp3 [] [''.txt'']) ''music/note.txt'')
     = (None, fileActionConvert,
        [Exec [''ffmpeg'', ''-y'', ''-i'', ''music/note.txt'', ''out/note.mp3''] True])"
  by code_simp

text \<open>
  Claim C10: the decision to process depends on the options alone. Two candidates get
  the same decision under the same options, whatever their paths, the state and the
  answers of the world; the decision is that the target extension is in \<^verbatim>\<open>Sources\<close>
  or is not in \<^verbatim>\<open>Except\<close>.
\<close>

theorem C10_decision_ignores_the_candidate:
  "shouldProcess opts path1 = shouldProcess opts path2 \<and>
   (snd (goroutineBody P w1 opts path1 s1) = None)
     = (snd (goroutineBody P w2 opts path2 s2) = None) \<and>
   shouldProcess opts path1
     = (TargetExtension opts \<in> set (Sources opts) \<or> TargetExtension opts \<notin> set (Except opts))"
  by (auto simp: shouldProcess_def goroutineBody_def Let_def split: prod.splits)

theorem C10_decision_ignores_the_candidate_witness:
  "shouldProcess (to_mp3 [''.opus''] [''.mp3'']) ''music/song.opus''
     = shouldProcess (to_mp3 [''.opus''] [''.mp3'']) ''music/old.mp3'' \<and>
   \<not> shouldProcess (to_mp3 [''.opus''] [''.mp3'']) ''music/old.mp3''"
proof -
  have "\<not> shouldProcess (to_mp3 [''.opus''] [''.mp3'']) ''music/old.mp3''"
    by code_simp
  with C10_decision_ignores_the_candidate
         [of "to_mp3 [''.opus''] [''.mp3'']" "''music/song.opus''" "''music/old.mp3''"
             unix fine "start 1 (to_mp3 [''.opus''] [''.mp3'']) []"
             fine "start 1 (to_mp3 [''.opus''] [''.mp3'']) []"]
  show ?thesis by blast
qed

subsection \<open>ConvertFile\<close>

text \<open>
  Claim C5: in \<^verbatim>\<open>ConvertFile\<close>, a file whose extension equals the target extension is
  relocated: the external command is never run and nothing is removed, the action is
  never \<^verbatim>\<open>fileActionConvert\<close>, and unless the file is its own output path the action
  is not \<^verbatim>\<open>fileActionSkip\<close> and the file is moved or copied to the output path.
  With \<^verbatim>\<open>DeleteOriginal\<close> the rename of the file to its output path is called and is
  the only call that changes anything; without it the copy is started with the stat
  of the file, only the output path is created and written, and a reported move has
  copied the file into it. A file whose extension differs is converted: no call of a
  move or a copy is made, the action is \<^verbatim>\<open>fileActionConvert\<close> or \<^verbatim>\<open>fileActionFail\<close>,
  the external command is run whenever the template yields a command with a non-empty
  argument vector, and a reported conversion has run it with success.
\<close>

theorem C5_extension_decides_relocate_or_convert:
  assumes "ConvertFile P w opts = (err, fileAction, calls)"
  shows "(filepath_Ext P (Path opts) = ConvertFileOpts.TargetExtension opts \<longrightarrow>
            fileAction \<noteq> fileActionConvert \<and> (\<forall>e\<in>set calls. \<not> conversion_call e) \<and>
            (Path opts \<noteq> outputPath_of P opts \<longrightarrow>
               fileAction \<noteq> fileActionSkip \<and>
               (ConvertFileOpts.DeleteOriginal opts \<longrightarrow>
                  Rename (Path opts) (outputPath_of P opts) \<in> set calls \<and>
                  (\<forall>e\<in>set calls. mutates e \<longrightarrow>
                     e = Rename (Path opts) (outputPath_of P opts))) \<and>
               (\<not> ConvertFileOpts.DeleteOriginal opts \<longrightarrow>
                  Stat (Path opts) \<in> set calls \<and>
                  (\<forall>e\<in>set calls. mutates e \<longrightarrow>
                     e = Create (outputPath_of P opts)
                     \<or> e = Copy (outputPath_of P opts) (Path opts)) \<and>
                  (fileAction = fileActionMove \<longrightarrow>
                     Copy (outputPath_of P opts) (Path opts) \<in> set calls)))) \<and>
         (filepath_Ext P (Path opts) \<noteq> ConvertFileOpts.TargetExtension opts \<longrightarrow>
            fileAction \<noteq> fileActionMove \<and> fileAction \<noteq> fileActionSkip \<and>
            (\<forall>e\<in>set calls. \<not> relocation_call e) \<and>
            (\<forall>command argv.
               generateConvertCommand w (ConvertFileOpts.Command opts) (Path opts)
                   (outputPath_of P opts) = Inr command \<and>
               splitCommand w command = Inr argv \<and> argv \<noteq> [] \<longrightarrow>
               Exec argv (ConvertFileOpts.Quiet opts) \<in> set calls) \<and>
            (fileAction = fileActionConvert \<longrightarrow>
               (\<exists>command argv.
                  generateConvertCommand w (ConvertFileOpts.Command opts) (Path opts)
                      (outputPath_of P opts) = Inr command \<and>
                  splitCommand w command = Inr argv \<and> argv \<noteq> [] \<and>
                  cmd_Run w argv (ConvertFileOpts.Quiet opts) = None \<and>
                  Exec argv (ConvertFileOpts.Quiet opts) \<in> set calls)))"
proof (cases "filepath_Ext P (Path opts) = ConvertFileOpts.TargetExtension opts")
  case True
  from ConvertFile_same_extension [OF assms True]
  have "fileAction \<noteq> fileActionConvert" "\<forall>e\<in>set calls. \<not> conversion_call e"
    "Path opts \<noteq> outputPath_of P opts \<longrightarrow> fileAction \<noteq> fileActionSkip"
    by (simp_all add: filter_empty_conv)
  with True ConvertFile_relocates [OF assms True] show ?thesis by blast
next
  case False
  from ConvertFile_other_extension [OF assms False]
  have "fileAction \<noteq> fileActionMove" "fileAction \<noteq> fileActionSkip"
    "\<forall>e\<in>set calls. \<not> relocation_call e"
    by (simp_all add: filter_empty_conv)
  with False ConvertFile_converts [OF assms False] show ?thesis by blast
qed

theorem C5_extension_decides_relocate_or_convert_witness:
  "ConvertFile unix fine (fileOpts ((to_mp3 [] [])\<lparr>DeleteOriginal := True\<rparr>) ''music/b.mp3'')
     = (None, fileActionMove, [Rename ''music/b.mp3'' ''out/b.mp3'']) \<and>
   ConvertFile unix fine (fileOpts (to_mp3 [] []) ''music/b.mp3'')
     = (None, fileActionMove,
        [Stat ''music/b.mp3'', Open ''music/b.mp3'', Create ''out/b.mp3'',
         Copy ''out/b.mp3'' ''music/b.mp3'']) \<and>
   ConvertFile unix fine (fileOpts ((to_mp3 [] [])\<lparr>DeleteOriginal := True\<rparr>) ''music/a.wav'')
     = (None, fileActionConvert,
        [Exec [''ffmpeg'', ''-y'', ''-i'', ''music/a.wav'', ''out/a.mp3''] True,
         Remove ''music/a.wav'']) \<and>
   Rename (Path (fileOpts ((to_mp3 [] [])\<lparr>DeleteOriginal := True\<rparr>) ''music/b.mp3''))
       (outputPath_of unix (fileOpts ((to_mp3 [] [])\<lparr>DeleteOriginal := True\<rparr>) ''music/b.mp3''))
     \<in> set [Rename ''music/b.mp3'' ''out/b.mp3''] \<and>
   Copy (outputPath_of unix (fileOpts (to_mp3 [] []) ''music/b.mp3''))
       (Path (fileOpts (to_mp3 [] []) ''music/b.mp3''))
     \<in> set [Stat ''music/b.mp3'', Open ''music/b.mp3'', Create ''out/b.mp3'',
         Copy ''out/b.mp3'' ''music/b.mp3''] \<and>
   (\<exists>command argv.
      generateConvertCommand fine
          (ConvertFileOpts.Command (fileOpts ((to_mp3 [] [])\<lparr>DeleteOriginal := True\<rparr>) ''music/a.wav''))
          (Path (fileOpts ((to_mp3 [] [])\<lparr>DeleteOriginal := True\<rparr>) ''music/a.wav''))
          (outputPath_of unix (fileOpts ((to_mp3 [] [])\<lparr>DeleteOriginal := True\<rparr>) ''music/a.wav''))
        = Inr command \<and>
      splitCommand fine command = Inr argv \<and> argv \<noteq> [] \<and>
      cmd_Run fine argv
          (ConvertFileOpts.Quiet (fileOpts ((to_mp3 [] [])\<lparr>DeleteOriginal := True\<rparr>) ''music/a.wav''))
        = None \<and>
      Exec argv
          (ConvertFileOpts.Quiet (fileOpts ((to_mp3 [] [])\<lparr>DeleteOriginal := True\<rparr>) ''music/a.wav''))
        \<in> set [Exec [''ffmpeg'', ''-y'', ''-i'', ''music/a.wav'', ''out/a.mp3''] True,
                Remove ''music/a.wav''])"
proof -
  define mv where "mv = fileOpts ((to_mp3 [] [])\<lparr>DeleteOriginal := True\<rparr>) ''music/b.mp3''"
  define cp where "cp = fileOpts (to_mp3 [] []) ''music/b.mp3''"
  define cv where "cv = fileOpts ((to_mp3 [] [])\<lparr>DeleteOriginal := True\<rparr>) ''music/a.wav''"
  have m: "ConvertFile unix fine mv
     = (None, fileActionMove, [Rename ''music/b.mp3'' ''out/b.mp3''])"
    unfolding mv_def by code_simp
  have c: "ConvertFile unix fine cp
     = (None, fileActionMove,
        [Stat ''music/b.mp3'', Open ''music/b.mp3'', Create ''out/b.mp3'',
         Copy ''out/b.mp3'' ''music/b.mp3''])"
    unfolding cp_def by code_simp
  have v: "ConvertFile unix fine cv
     = (None, fileActionConvert,
        [Exec [''ffmpeg'', ''-y'', ''-i'', ''music/a.wav'', ''out/a.mp3''] True,
         Remove ''music/a.wav''])"
    unfolding cv_def by code_simp
  have x: "filepath_Ext unix (Path mv) = ConvertFileOpts.TargetExtension mv"
    "Path mv \<noteq> outputPath_of unix mv" "ConvertFileOpts.DeleteOriginal mv"
    "filepath_Ext unix (Path cp) = ConvertFileOpts.TargetExtension cp"
    "Path cp \<noteq> outputPath_of unix cp" "\<not> ConvertFileOpts.DeleteOriginal cp"
    "filepath_Ext unix (Path cv) \<noteq> ConvertFileOpts.TargetExtension cv"
    unfolding mv_def cp_def cv_def by code_simp+
  from C5_extension_decides_relocate_or_convert [OF m] x
  have 1: "Rename (Path mv) (outputPath_of unix mv) \<in> set [Rename ''music/b.mp3'' ''out/b.mp3'']"
    by blast
  from C5_extension_decides_relocate_or_convert [OF c] x
  have 2: "Copy (outputPath_of unix cp) (Path cp)
     \<in> set [Stat ''music/b.mp3'', Open ''music/b.mp3'', Create ''out/b.mp3'',
         Copy ''out/b.mp3'' ''music/b.mp3'']"
    by blast
  from C5_extension_decides_relocate_or_convert [OF v] x
  have 3: "\<exists>command argv.
      generateConvertCommand fine (ConvertFileOpts.Command cv) (Path cv) (outputPath_of unix cv)
        = Inr command \<and>
      splitCommand fine command = Inr argv \<and> argv \<noteq> [] \<and>
      cmd_Run fine argv (ConvertFileOpts.Quiet cv) = None \<and>
      Exec argv (ConvertFileOpts.Quiet cv)
        \<in> set [Exec [''ffmpeg'', ''-y'', ''-i'', ''music/a.wav'', ''out/a.mp3''] True,
                Remove ''music/a.wav'']"
    by blast
  from m c v 1 2 3 show ?thesis
    unfolding mv_def cp_def cv_def by blast
qed

text \<open>
  Claim C6: a file that has the target extension and is its own output path is
  skipped by \<^verbatim>\<open>ConvertFile\<close>: no error, \<^verbatim>\<open>fileActionSkip\<close>, and no call but the
  log line, whatever the world would answer; nothing is renamed, copied or removed.
\<close>

theorem C6_file_at_its_output_path_is_skipped:
  assumes "filepath_Ext P (Path opts) = ConvertFileOpts.TargetExtension opts"
    and "Path opts = outputPath_of P opts"
  shows "ConvertFile P w opts
           = (None, fileActionSkip,
              logf (ConvertFileOpts.Quiet opts)
                (''already in output directory - skipping: '' @ Path opts @ nl)) \<and>
         (\<forall>e\<in>set (snd (snd (ConvertFile P w opts))). \<not> mutates e)"
  using assms by (auto simp: ConvertFile_def Let_def logf_def)

theorem C6_file_at_its_output_path_is_skipped_witness:
  "filepath_Ext unix ''b.mp3'' = ''.mp3'' \<and>
   outputPath_of unix
     (fileOpts ((to_mp3 [] [])\<lparr>OutDir := ''.'', DeleteOriginal := True, Quiet := False\<rparr>) ''b.mp3'')
     = ''b.mp3'' \<and>
   ConvertFile unix failing
     (fileOpts ((to_mp3 [] [])\<lparr>OutDir := ''.'', DeleteOriginal := True, Quiet := False\<rparr>) ''b.mp3'')
     = (None, fileActionSkip, [Log (''already in output directory - skipping: b.mp3'' @ nl)])"
proof -
  define fo where
    "fo = fileOpts ((to_mp3 [] [])\<lparr>OutDir := ''.'', DeleteOriginal := True, Quiet := False\<rparr>) ''b.mp3''"
  have h1: "filepath_Ext unix (Path fo) = ConvertFileOpts.TargetExtension fo"
    unfolding fo_def by code_simp
  have h2: "Path fo = outputPath_of unix fo"
    unfolding fo_def by code_simp
  have v: "filepath_Ext unix ''b.mp3'' = ''.mp3''" "Path fo = ''b.mp3''"
    "ConvertFileOpts.Quiet fo = False"
    unfolding fo_def by code_simp+
  from C6_file_at_its_output_path_is_skipped [OF h1 h2, of failing] h2 v
  have "filepath_Ext unix ''b.mp3'' = ''.mp3'' \<and> outputPath_of unix fo = ''b.mp3'' \<and>
    ConvertFile unix failing fo
      = (None, fileActionSkip, [Log (''already in output directory - skipping: b.mp3'' @ nl)])"
    by (simp add: logf_def)
  then show ?thesis unfolding fo_def .
qed

subsection \<open>The pool\<close>

text \<open>
  Claim C9: with a pool of \<open>N\<close> slots, in every state a run reaches at most \<open>N\<close>
  goroutines are between their send on \<^verbatim>\<open>sem\<close> and their receive from it, and the
  channel holds exactly one value for each of them. The body of a goroutine that
  holds a slot always returns to the deferred receive, whatever the world answers and
  without touching the channel. That receive, whatever the outcome of the body, is
  enabled and takes one value out of the channel: one goroutine fewer is in flight,
  the channel is no longer full, and any goroutine that waits for a slot can take
  one. Once the wait group is at zero the channel is empty.
\<close>

theorem C9_at_most_N_in_flight_and_every_slot_returned:
  assumes "exec N P opts sched (start N opts entries) = Some s"
  shows "in_flight s \<le> N \<and> sem s = in_flight s \<and>
         (\<forall>i w. at_status s i Acquired \<longrightarrow>
            (\<exists>s'. step N P opts (Body i w) s = Some s' \<and> at_status s' i Ran \<and>
                  sem s' = sem s \<and> in_flight s' = in_flight s)) \<and>
         (\<forall>i. at_status s i Ran \<longrightarrow>
            (\<exists>s'. step N P opts (Release i) s = Some s' \<and> at_status s' i Released \<and>
                  sem s' + 1 = sem s \<and> in_flight s' + 1 = in_flight s \<and> sem s' < N \<and>
                  (\<forall>j. at_status s' j Spawned \<longrightarrow> step N P opts (Acquire j) s' \<noteq> None))) \<and>
         (wg s = 0 \<longrightarrow> sem s = 0)"
proof -
  from run_ok_reachable [OF assms] have ok: "run_ok N opts entries s" .
  then have pool: "pool_ok N s" and wgk: "wg_ok s"
    by (simp_all add: run_ok_def)
  have body: "\<exists>s'. step N P opts (Body i w) s = Some s' \<and> at_status s' i Ran \<and>
                  sem s' = sem s \<and> in_flight s' = in_flight s"
    if at: "at_status s i Acquired" for i w
  proof -
    obtain b r where br: "goroutineBody P w opts (inputPath (goroutines s ! i)) s = (b, r)"
      by (cases "goroutineBody P w opts (inputPath (goroutines s ! i)) s") auto
    define s' where
      "s' = b\<lparr>goroutines := (goroutines b)[i := (goroutines b ! i)\<lparr>status := Ran, outcome := r\<rparr>]\<rparr>"
    from at br have st: "step N P opts (Body i w) s = Some s'"
      by (simp add: s'_def)
    from pool_ok_step [OF pool st] pool goroutineBody_frame [OF br] at
    have "at_status s' i Ran \<and> sem s' = sem s \<and> in_flight s' = in_flight s"
      by (simp add: s'_def pool_ok_def at_status_def)
    with st show ?thesis by blast
  qed
  have release: "\<exists>s'. step N P opts (Release i) s = Some s' \<and> at_status s' i Released \<and>
                  sem s' + 1 = sem s \<and> in_flight s' + 1 = in_flight s \<and> sem s' < N \<and>
                  (\<forall>j. at_status s' j Spawned \<longrightarrow> step N P opts (Acquire j) s' \<noteq> None)"
    if at: "at_status s i Ran" for i
  proof -
    from at have "0 < in_flight s"
      unfolding in_flight_def
      by (intro holder_counted [of i]) (auto simp: at_status_def holds_slot_def)
    with pool have pos: "0 < sem s" by (simp add: pool_ok_def)
    define s' where "s' = setStatus i Released (s\<lparr>sem := sem s - 1\<rparr>)"
    from at pos have st: "step N P opts (Release i) s = Some s'"
      by (simp add: s'_def)
    from pos have sem': "sem s' + 1 = sem s"
      by (simp add: s'_def setStatus_def)
    from pool_ok_step [OF pool st] have pool': "pool_ok N s'" .
    with pool sem' have fl: "in_flight s' + 1 = in_flight s" and lt: "sem s' < N"
      by (simp_all add: pool_ok_def)
    from at have "at_status s' i Released"
      by (simp add: s'_def setStatus_def at_status_def)
    moreover from lt have "\<forall>j. at_status s' j Spawned \<longrightarrow> step N P opts (Acquire j) s' \<noteq> None"
      by simp
    ultimately show ?thesis using st sem' fl lt by blast
  qed
  have "sem s = 0" if "wg s = 0"
  proof -
    from all_finished [OF wgk that] have "filter holds_slot (goroutines s) = []"
      by (auto simp: filter_empty_conv holds_slot_def)
    with pool show ?thesis by (simp add: pool_ok_def in_flight_def)
  qed
  with body release pool show ?thesis by (simp add: pool_ok_def)
qed

text \<open>
  An instance for claim C9: one slot, two files. The second goroutine has taken the
  slot, so the first cannot; the conversion of the second fails; its receive empties
  the channel, and the first goroutine can take the slot.
\<close>

theorem C9_at_most_N_in_flight_and_every_slot_returned_witness:
  "let r = exec 1 unix (to_mp3 [] []) [Walk, Walk, Acquire 1, Body 1 failing]
             (start 1 (to_mp3 [] []) [WalkFile ''music/a.wav'', WalkFile ''music/b.wav'']);
       r' = step 1 unix (to_mp3 [] []) (Release 1) (the r)
   in r \<noteq> None \<and> in_flight (the r) = 1 \<and> sem (the r) = 1 \<and> at_status (the r) 1 Ran \<and>
      outcome (goroutines (the r) ! 1) = Some fileActionFail \<and>
      step 1 unix (to_mp3 [] []) (Acquire 0) (the r) = None \<and>
      r' \<noteq> None \<and> sem (the r') = 0 \<and> in_flight (the r') = 0 \<and>
      at_status (the r') 0 Spawned \<and>
      step 1 unix (to_mp3 [] []) (Acquire 0) (the r') \<noteq> None"
proof -
  define r where "r = exec 1 unix (to_mp3 [] []) [Walk, Walk, Acquire 1, Body 1 failing]
             (start 1 (to_mp3 [] []) [WalkFile ''music/a.wav'', WalkFile ''music/b.wav''])"
  define r' where "r' = step 1 unix (to_mp3 [] []) (Release 1) (the r)"
  have e: "r = Some (the r)" unfolding r_def by code_simp
  have v: "in_flight (the r) = 1" "at_status (the r) 1 Ran"
     "outcome (goroutines (the r) ! 1) = Some fileActionFail"
     "step 1 unix (to_mp3 [] []) (Acquire 0) (the r) = None"
     "at_status (the r') 0 Spawned"
    unfolding r'_def r_def by code_simp+
  from e have n: "r \<noteq> None" by (cases r) simp_all
  from C9_at_most_N_in_flight_and_every_slot_returned [OF e [unfolded r_def], folded r_def]
  have a: "sem (the r) = in_flight (the r)"
    and b: "at_status (the r) 1 Ran \<longrightarrow>
      (\<exists>s'. step 1 unix (to_mp3 [] []) (Release 1) (the r) = Some s' \<and>
            at_status s' 1 Released \<and> sem s' + 1 = sem (the r) \<and>
            in_flight s' + 1 = in_flight (the r) \<and> sem s' < 1 \<and>
            (\<forall>j. at_status s' j Spawned \<longrightarrow> step 1 unix (to_mp3 [] []) (Acquire j) s' \<noteq> None))"
    by blast+
  from b v(2) obtain s' where s': "r' = Some s'" "sem s' + 1 = sem (the r)"
    "in_flight s' + 1 = in_flight (the r)"
    "\<forall>j. at_status s' j Spawned \<longrightarrow> step 1 unix (to_mp3 [] []) (Acquire j) s' \<noteq> None"
    unfolding r'_def by blast
  from s'(1) have t: "the r' = s'" "r' \<noteq> None" by simp_all
  from s'(2,3) a v(1) have z: "sem s' = 0" "in_flight s' = 0" by simp_all
  from s'(4) v(5) t have q: "step 1 unix (to_mp3 [] []) (Acquire 0) (the r') \<noteq> None"
    by simp
  from n v a t z q
  have "r \<noteq> None \<and> in_flight (the r) = 1 \<and> sem (the r) = 1 \<and> at_status (the r) 1 Ran \<and>
      outcome (goroutines (the r) ! 1) = Some fileActionFail \<and>
      step 1 unix (to_mp3 [] []) (Acquire 0) (the r) = None \<and>
      r' \<noteq> None \<and> sem (the r') = 0 \<and> in_flight (the r') = 0 \<and>
      at_status (the r') 0 Spawned \<and>
      step 1 unix (to_mp3 [] []) (Acquire 0) (the r') \<noteq> None"
    by simp
  then show ?thesis unfolding r'_def r_def Let_def .
qed

text \<open>
  Claim C4, as stated: a file for which the decision is to skip starts no goroutine
  and takes no slot, and is counted as skipped at once. In the code the goroutine is
  started and the slot taken before the decision: with \<^verbatim>\<open>Except = [".mp3"]\<close> and
  target \<^verbatim>\<open>.mp3\<close> the decision for \<^verbatim>\<open>music/a.wav\<close> is to skip, and after the walker's
  step and the send on \<^verbatim>\<open>sem\<close> its goroutine holds the only slot.
\<close>

theorem C4_skipped_file_holds_a_slot:
  "\<not> shouldProcess (to_mp3 [] [''.mp3'']) ''music/a.wav'' \<and>
   (case exec 1 unix (to_mp3 [] [''.mp3'']) [Walk, Acquire 0]
           (start 1 (to_mp3 [] [''.mp3'']) [WalkFile ''music/a.wav'']) of
      None \<Rightarrow> False
    | Some s \<Rightarrow>
        map inputPath (goroutines s) = [''music/a.wav''] \<and>
        map status (goroutines s) = [Acquired] \<and> sem s = 1 \<and> in_flight s = 1)"
  by code_simp

text \<open>
  Claim C4, amended: every file the walk presents gets a goroutine of its own,
  whatever the decision will be; the body, in which the decision is taken, cannot run
  in a goroutine that still waits for a slot and runs only in one that holds a slot,
  which it keeps; and when the decision is to skip, the body calls nothing: the trace
  of calls is unchanged.
\<close>

theorem C4_every_file_holds_a_slot_when_deciding:
  assumes "exec N P opts sched (start N opts entries) = Some s"
  shows "map inputPath (goroutines s) = files_of (visited s) \<and>
         (\<forall>i w. at_status s i Spawned \<longrightarrow> step N P opts (Body i w) s = None) \<and>
         (\<forall>i w s'. step N P opts (Body i w) s = Some s' \<longrightarrow>
            at_status s i Acquired \<and> 0 < sem s \<and> sem s' = sem s \<and>
            (\<not> shouldProcess opts (inputPath (goroutines s ! i)) \<longrightarrow> trace s' = trace s))"
proof -
  from run_ok_reachable [OF assms] have pool: "pool_ok N s" and walk: "walk_ok entries s"
    by (simp_all add: run_ok_def)
  have "at_status s i Acquired \<and> 0 < sem s \<and> sem s' = sem s \<and>
        (\<not> shouldProcess opts (inputPath (goroutines s ! i)) \<longrightarrow> trace s' = trace s)"
    if b: "step N P opts (Body i w) s = Some s'" for i w s'
  proof -
    from b have at: "at_status s i Acquired"
      by (simp split: if_splits)
    then have "0 < in_flight s"
      unfolding in_flight_def
      by (intro holder_counted [of i]) (auto simp: at_status_def holds_slot_def)
    with pool have "0 < sem s" by (simp add: pool_ok_def)
    moreover have "trace s' = trace s"
      if "\<not> shouldProcess opts (inputPath (goroutines s ! i))"
      using b at that by (auto simp: goroutineBody_def at_status_def)
    moreover have "sem s' = sem s"
    proof -
      obtain c r where br: "goroutineBody P w opts (inputPath (goroutines s ! i)) s = (c, r)"
        by (cases "goroutineBody P w opts (inputPath (goroutines s ! i)) s") auto
      from goroutineBody_frame [OF br] b at br show ?thesis by auto
    qed
    ultimately show ?thesis using at by simp
  qed
  moreover have "step N P opts (Body i w) s = None" if "at_status s i Spawned" for i w
    using that by (simp add: at_status_def)
  ultimately show ?thesis using walk by (simp add: walk_ok_def)
qed

text \<open>
  An instance for the amended claim C4: the goroutine of the skipped file
  \<^verbatim>\<open>music/a.wav\<close> cannot run its body before it holds the slot; once it does, the body
  runs, the slot stays taken and the trace stays empty.
\<close>

theorem C4_every_file_holds_a_slot_when_deciding_witness:
  "let q = exec 1 unix (to_mp3 [] [''.mp3'']) [Walk]
             (start 1 (to_mp3 [] [''.mp3'']) [WalkFile ''music/a.wav'']);
       r = exec 1 unix (to_mp3 [] [''.mp3'']) [Walk, Acquire 0]
             (start 1 (to_mp3 [] [''.mp3'']) [WalkFile ''music/a.wav''])
   in q \<noteq> None \<and> at_status (the q) 0 Spawned \<and>
      step 1 unix (to_mp3 [] [''.mp3'']) (Body 0 fine) (the q) = None \<and>
      r \<noteq> None \<and>
      map inputPath (goroutines (the r)) = [''music/a.wav''] \<and>
      step 1 unix (to_mp3 [] [''.mp3'']) (Body 0 fine) (the r) \<noteq> None \<and>
      sem (the r) = 1 \<and>
      \<not> shouldProcess (to_mp3 [] [''.mp3'']) (inputPath (goroutines (the r) ! 0)) \<and>
      sem (the (step 1 unix (to_mp3 [] [''.mp3'']) (Body 0 fine) (the r))) = 1 \<and>
      trace (the (step 1 unix (to_mp3 [] [''.mp3'']) (Body 0 fine) (the r))) = []"
proof -
  define q where "q = exec 1 unix (to_mp3 [] [''.mp3'']) [Walk]
             (start 1 (to_mp3 [] [''.mp3'']) [WalkFile ''music/a.wav''])"
  define r where "r = exec 1 unix (to_mp3 [] [''.mp3'']) [Walk, Acquire 0]
             (start 1 (to_mp3 [] [''.mp3'']) [WalkFile ''music/a.wav''])"
  define r' where "r' = step 1 unix (to_mp3 [] [''.mp3'']) (Body 0 fine) (the r)"
  have d: "q = Some (the q)" unfolding q_def by code_simp
  have e: "r = Some (the r)" unfolding r_def by code_simp
  have b: "r' = Some (the r')" unfolding r'_def r_def by code_simp
  have v: "files_of (visited (the r)) = [''music/a.wav'']" "trace (the r) = []"
    "\<not> shouldProcess (to_mp3 [] [''.mp3'']) (inputPath (goroutines (the r) ! 0))"
    "sem (the r) = 1" "at_status (the q) 0 Spawned"
    unfolding r_def q_def by code_simp+
  from d e b have n: "q \<noteq> None" "r \<noteq> None" "r' \<noteq> None"
    by (cases q, simp_all) (cases r, simp_all, cases r', simp_all)
  from C4_every_file_holds_a_slot_when_deciding [OF d [unfolded q_def], folded q_def] v(5)
  have 0: "step 1 unix (to_mp3 [] [''.mp3'']) (Body 0 fine) (the q) = None"
    by blast
  from C4_every_file_holds_a_slot_when_deciding [OF e [unfolded r_def], folded r_def]
  have "map inputPath (goroutines (the r)) = files_of (visited (the r))"
    and "step 1 unix (to_mp3 [] [''.mp3'']) (Body 0 fine) (the r) = Some (the r') \<longrightarrow>
           at_status (the r) 0 Acquired \<and> 0 < sem (the r) \<and> sem (the r') = sem (the r) \<and>
           (\<not> shouldProcess (to_mp3 [] [''.mp3'']) (inputPath (goroutines (the r) ! 0)) \<longrightarrow>
              trace (the r') = trace (the r))"
    by blast+
  with b v n 0
  have "q \<noteq> None \<and> at_status (the q) 0 Spawned \<and>
      step 1 unix (to_mp3 [] [''.mp3'']) (Body 0 fine) (the q) = None \<and>
      r \<noteq> None \<and>
      map inputPath (goroutines (the r)) = [''music/a.wav''] \<and>
      r' \<noteq> None \<and> sem (the r) = 1 \<and>
      \<not> shouldProcess (to_mp3 [] [''.mp3'']) (inputPath (goroutines (the r) ! 0)) \<and>
      sem (the r') = 1 \<and> trace (the r') = []"
    unfolding r'_def [symmetric] by metis
  then show ?thesis unfolding r'_def r_def q_def Let_def .
qed

subsection \<open>The walk, the counters and the result\<close>


text \<open>
  Claim C3: after every run the four counters add up to the number of files the walk
  visited, skipped files included. A file for which the decision is not to process
  is counted nowhere: with \<^verbatim>\<open>Except = [".mp3"]\<close> and target \<^verbatim>\<open>.mp3\<close>, the run over
  the one file \<^verbatim>\<open>music/a.wav\<close> returns without error, has visited one file, and its
  four counters are zero.
\<close>

theorem C3_unprocessed_file_is_not_counted:
  "(case ConvertDir 1 unix (to_mp3 [] [''.mp3'']) [WalkFile ''music/a.wav'']
           [Walk, WalkDone, Acquire 0, Body 0 fine, Release 0, Done 0] of
      None \<Rightarrow> False
    | Some (res, s) \<Rightarrow>
        res = None \<and> files_of (visited s) = [''music/a.wav''] \<and>
        processedFiles s = 0 \<and> movedFiles s = 0 \<and> skippedFiles s = 0 \<and> failedFiles s = 0)"
  by code_simp

text \<open>
  Claim C7: the run returns an error exactly when an error was collected, and the
  summary is reported also in that case. The code returns the error before the
  summary: when the external command fails on the one file \<^verbatim>\<open>music/a.wav\<close>, in a
  run that is not quiet, the run returns the error, one file has failed, and the log
  ends with the list of errors; no line of the summary is written.
\<close>

theorem C7_no_summary_when_a_file_failed:
  "(case ConvertDir 1 unix ((to_mp3 [] [])\<lparr>Quiet := False\<rparr>) [WalkFile ''music/a.wav'']
           [Walk, WalkDone, Acquire 0, Body 0 failing, Release 0, Done 0] of
      None \<Rightarrow> False
    | Some (res, s) \<Rightarrow>
        res = Some (nl @ ''completed with 1 errors'' @ nl) \<and> failedFiles s = 1 \<and>
        trace s =
          [Log (''using 1 worker threads for parallel processing'' @ nl),
           Log (nl @ ''waiting for all conversions to complete...'' @ nl),
           Log (''converting: music/a.wav -> out/a.mp3'' @ nl),
           Exec [''ffmpeg'', ''-y'', ''-i'', ''music/a.wav'', ''out/a.mp3''] False,
           Log (nl @ ''=== errors encountered ==='' @ nl),
           Log (''Error 1: failed to convert music/a.wav: exit status 1'' @ nl)])"
  by code_simp

end
